theory Spec2Isabelle
  imports Main "HOL-Library.Word"
begin

section \<open>The control channel of an XCM socket (libxcm/ctl.c)\<close>

text \<open>
  The theory embeds \<^verbatim>\<open>src/libxcm/ctl.c\<close>: the wire messages, the client pool, the
  request handlers, the per-client step, accept, removal, the top-level processing and the
  teardown. Everything the file calls but does not define (system calls, the attribute
  table of the owning socket, the readiness registration set) is part of an explicit
  environment.
\<close>

subsection \<open>Constants\<close>

type_synonym byte = "8 word"

text \<open>The two error numbers the file names, with their Linux values.\<close>

definition EAGAIN :: int where "EAGAIN = 11"
definition EACCES :: int where "EACCES = 13"

definition MAX_CLIENTS :: nat where "MAX_CLIENTS = 2"

text \<open>
  Modelled from the spec: \<^verbatim>\<open>xcm_attr_names.h\<close> is not among the sources; the sensitive
  attribute is the one carrying the TLS private key, which the specification's example
  names \<^verbatim>\<open>tls.key\<close>.
\<close>

definition XCM_ATTR_TLS_KEY :: string where "XCM_ATTR_TLS_KEY = ''tls.key''"

subsection \<open>Wire messages\<close>

text \<open>\<^verbatim>\<open>enum xcm_attr_type\<close> is kept as the integer it is in C.\<close>

type_synonym xcm_attr_type = int

text \<open>
  Modelled from the spec: the message tags of \<^verbatim>\<open>enum ctl_proto_type\<close>; a tag read
  from the wire that is none of them is \<open>ctl_proto_type_other\<close>.
\<close>

datatype ctl_proto_type =
    ctl_proto_type_get_attr_req
  | ctl_proto_type_get_attr_cfm
  | ctl_proto_type_get_attr_rej
  | ctl_proto_type_get_all_attr_req
  | ctl_proto_type_get_all_attr_cfm
  | ctl_proto_type_other int

record ctl_proto_attr =
  name :: string
  value_type :: xcm_attr_type
  any_value :: "byte list"
  value_len :: nat

record ctl_proto_get_attr_req =
  attr_name :: string

record ctl_proto_get_attr_cfm =
  attr :: ctl_proto_attr

record ctl_proto_get_attr_rej =
  rej_errno :: int

record ctl_proto_get_all_attr_cfm =
  attrs :: "ctl_proto_attr list"
  attrs_len :: nat

text \<open>
  \<^verbatim>\<open>struct ctl_proto_msg\<close> is a tag and a union. The members of the union are kept as
  separate fields; what one member reads as after another was written is decided by the
  declarations of \<^verbatim>\<open>ctl_proto.h\<close> and is a parameter (see the limits below).
\<close>

record ctl_proto_msg =
  type :: ctl_proto_type
  get_attr_req :: ctl_proto_get_attr_req
  get_attr_cfm :: ctl_proto_get_attr_cfm
  get_attr_rej :: ctl_proto_get_attr_rej
  get_all_attr_cfm :: ctl_proto_get_all_attr_cfm

text \<open>
  What \<^verbatim>\<open>ctl_proto.h\<close>, which is not among the sources, decides is a parameter: the size
  of an attribute's value buffer (\<^verbatim>\<open>CTL_ATTR_VALUE_MAX\<close>, also
  \<^verbatim>\<open>sizeof(attr->any_value)\<close>), the number of slots of an enumeration response
  (\<^verbatim>\<open>CTL_PROTO_MAX_ATTRS\<close>), the size of a message
  (\<^verbatim>\<open>sizeof(struct ctl_proto_msg)\<close>), and how the members of the union share their
  storage. \<open>overlay_get_all_attr_cfm\<close> gives what the enumeration member reads as once a
  lookup has written the confirm or the reject member, and \<open>overlay_get_attr\<close> what the
  confirm and the reject member read as once an enumeration has written the enumeration
  member; both are given the message with the written member new and the others as they
  were. The reject's error number is written over the start of the confirm member, which
  in the order the specification gives for an entry (name, type, length, bytes) is the
  name; the confirm member is left as it is there.
\<close>

record ctl_proto_limits =
  CTL_ATTR_VALUE_MAX :: nat
  CTL_PROTO_MAX_ATTRS :: nat
  sizeof_ctl_proto_msg :: nat
  overlay_get_all_attr_cfm :: "ctl_proto_msg \<Rightarrow> ctl_proto_get_all_attr_cfm"
  overlay_get_attr :: "ctl_proto_msg \<Rightarrow> ctl_proto_get_attr_cfm \<times> ctl_proto_get_attr_rej"

subsection \<open>The owning socket's attribute table\<close>

text \<open>
  Modelled from the spec: \<^verbatim>\<open>xcm_attr_get\<close> and \<^verbatim>\<open>xcm_attr_get_all\<close> are not among
  the sources. What a lookup does is a parameter of the socket: for a name and the
  capacity of the caller's buffer, the result code, the error number it leaves (\<open>None\<close>:
  untouched), the type it stores in the caller's type cell (\<open>None\<close>: untouched) and the
  bytes it stores at the start of the caller's buffer, never more than the capacity. The
  enumeration calls the visitor once per attribute, in the table's order, with the name,
  the type and the value bytes (the length passed to the visitor is the length of the
  value). A visitor that does not return (a failed assertion aborts the process; a
  \<^verbatim>\<open>memcpy\<close> of more bytes than the destination holds is undefined in C) ends the
  enumeration with that \<open>fault\<close>.
\<close>

record attr_get_result =
  get_rc :: int
  get_errno :: "int option"
  get_type :: "xcm_attr_type option"
  get_value :: "byte list"

type_synonym attr_visit = "string \<times> xcm_attr_type \<times> byte list"

record xcm_socket =
  attr_lookup :: "string \<Rightarrow> nat \<Rightarrow> attr_get_result"
  attr_visits :: "attr_visit list"

datatype fault = assertion_failed | buffer_overrun

text \<open>
  \<open>xcm_attr_get s a t buf capacity\<close>: the result code, the error number left, and the
  type cell and the buffer after the call.
\<close>

definition xcm_attr_get ::
  "xcm_socket \<Rightarrow> string \<Rightarrow> xcm_attr_type \<Rightarrow> byte list \<Rightarrow> nat
     \<Rightarrow> int \<times> int option \<times> xcm_attr_type \<times> byte list"
where
  "xcm_attr_get s a t buf capacity =
     (let r = attr_lookup s a capacity;
          v = take capacity (get_value r)
      in (get_rc r, get_errno r,
          (case get_type r of None \<Rightarrow> t | Some t' \<Rightarrow> t'),
          v @ drop (length v) buf))"

fun visit_each :: "(attr_visit \<Rightarrow> 'd \<Rightarrow> fault + 'd) \<Rightarrow> attr_visit list \<Rightarrow> 'd \<Rightarrow> fault + 'd" where
  "visit_each cb [] d = Inr d"
| "visit_each cb (v # vs) d = (case cb v d of Inl f \<Rightarrow> Inl f | Inr d' \<Rightarrow> visit_each cb vs d')"

definition xcm_attr_get_all :: "xcm_socket \<Rightarrow> (attr_visit \<Rightarrow> 'd \<Rightarrow> fault + 'd) \<Rightarrow> 'd \<Rightarrow> fault + 'd" where
  "xcm_attr_get_all s cb d = visit_each cb (attr_visits s) d"

subsection \<open>Request handlers\<close>

definition is_sensitive :: "string \<Rightarrow> bool" where
  "is_sensitive a = (a = XCM_ATTR_TLS_KEY)"

text \<open>\<^verbatim>\<open>memset(attr->any_value, 0, CTL_ATTR_VALUE_MAX)\<close>.\<close>

definition clear_attr :: "ctl_proto_limits \<Rightarrow> ctl_proto_attr \<Rightarrow> ctl_proto_attr" where
  "clear_attr K a =
     a\<lparr>any_value := replicate (CTL_ATTR_VALUE_MAX K) 0 @ drop (CTL_ATTR_VALUE_MAX K) (any_value a)\<rparr>"

text \<open>
  \<open>process_get_attr K s e req response\<close>: \<open>e\<close> is the value of \<^verbatim>\<open>errno\<close> on entry,
  which \<^verbatim>\<open>UT_RESTORE_ERRNO(attr_errno)\<close> reads back when the lookup leaves it untouched.
  The result is the response buffer on return, the enumeration member read through the
  overlay.
\<close>

definition process_get_attr ::
  "ctl_proto_limits \<Rightarrow> xcm_socket \<Rightarrow> int \<Rightarrow> ctl_proto_get_attr_req \<Rightarrow> ctl_proto_msg \<Rightarrow> ctl_proto_msg"
where
  "process_get_attr K s e req response =
     (case xcm_attr_get s (attr_name req) (value_type (attr (get_attr_cfm response)))
             (any_value (attr (get_attr_cfm response))) (CTL_ATTR_VALUE_MAX K)
      of (rc, lookup_errno, t, buf) \<Rightarrow>
      let a1 = (attr (get_attr_cfm response))\<lparr>value_type := t, any_value := buf\<rparr>;
          attr_errno = (case lookup_errno of None \<Rightarrow> e | Some e' \<Rightarrow> e');
          sens = is_sensitive (attr_name req);
          a2 = (if sens then clear_attr K a1 else a1);
          rc2 = (if sens then - 1 else rc);
          attr_errno2 = (if sens then EACCES else attr_errno);
          m = (if rc2 \<ge> 0
               then response\<lparr>type := ctl_proto_type_get_attr_cfm,
                              get_attr_cfm := \<lparr>attr = a2\<lparr>value_len := nat rc2\<rparr>\<rparr>\<rparr>
               else response\<lparr>type := ctl_proto_type_get_attr_rej,
                              get_attr_cfm := \<lparr>attr = a2\<rparr>,
                              get_attr_rej := \<lparr>rej_errno = attr_errno2\<rparr>\<rparr>)
      in m\<lparr>get_all_attr_cfm := overlay_get_all_attr_cfm K m\<rparr>)"

text \<open>
  \<open>add_attr\<close> is the visitor of the enumeration. The slot it fills is
  \<^verbatim>\<open>cfm->attrs[cfm->attrs_len]\<close> as the count was on entry; the count is incremented
  before the first assertion; the second assertion reads the slot's own \<^verbatim>\<open>value_len\<close>,
  as it is before this visit writes it.
\<close>

definition add_attr ::
  "ctl_proto_limits \<Rightarrow> attr_visit \<Rightarrow> ctl_proto_get_all_attr_cfm
     \<Rightarrow> fault + ctl_proto_get_all_attr_cfm"
where
  "add_attr K v cfm =
     (case v of (a_name, a_type, a_value) \<Rightarrow>
        if is_sensitive a_name then Inr cfm
        else
          let idx = attrs_len cfm;
              cfm1 = cfm\<lparr>attrs_len := attrs_len cfm + 1\<rparr>
          in if \<not> attrs_len cfm1 < CTL_PROTO_MAX_ATTRS K then Inl assertion_failed
             else
               let slot = (attrs cfm1 ! idx)\<lparr>name := a_name, value_type := a_type\<rparr>
               in if \<not> value_len slot < CTL_ATTR_VALUE_MAX K then Inl assertion_failed
                  else if length a_value > CTL_ATTR_VALUE_MAX K then Inl buffer_overrun
                  else Inr (cfm1\<lparr>attrs := (attrs cfm1)
                              [idx := slot\<lparr>any_value := a_value @ drop (length a_value) (any_value slot),
                                           value_len := length a_value\<rparr>]\<rparr>))"

text \<open>
  \<open>process_get_all_attr\<close> resets the count and runs the enumeration into the response's
  \<^verbatim>\<open>get_all_attr_cfm\<close> member. It writes nothing else of the response, the tag
  included; the confirm and the reject member are read through the overlay afterwards.
\<close>

definition process_get_all_attr ::
  "ctl_proto_limits \<Rightarrow> xcm_socket \<Rightarrow> ctl_proto_msg \<Rightarrow> fault + ctl_proto_msg"
where
  "process_get_all_attr K s response =
     (case xcm_attr_get_all s (add_attr K) ((get_all_attr_cfm response)\<lparr>attrs_len := 0\<rparr>) of
        Inl f \<Rightarrow> Inl f
      | Inr cfm \<Rightarrow>
          let m = response\<lparr>get_all_attr_cfm := cfm\<rparr>
          in Inr (m\<lparr>get_attr_cfm := fst (overlay_get_attr K m),
                    get_attr_rej := snd (overlay_get_attr K m)\<rparr>))"

subsection \<open>The environment\<close>

text \<open>
  What the endpoint does to the outside is recorded as a trace of events; what the outside
  does to the endpoint is scripted: for every descriptor the results its next calls of
  \<^verbatim>\<open>recv\<close> and \<^verbatim>\<open>send\<close> will have, and for the listening descriptor the results
  of the next accepts. A descriptor with nothing scripted would block on \<^verbatim>\<open>recv\<close>
  (\<^verbatim>\<open>EAGAIN\<close>) and takes a whole message on \<^verbatim>\<open>send\<close>; a listening descriptor with
  nothing scripted is not readable. \<open>close_fails\<close>, \<open>unlink_fails\<close> and \<open>sockname\<close>
  say which of the teardown's calls fail, and with which error number.
\<close>

datatype event =
    ev_send int ctl_proto_msg
  | ev_close int
  | ev_getsockname int
  | ev_unlink string
  | ev_free

record recv_result =
  recv_rc :: int
  recv_errno :: int
  recv_msg :: ctl_proto_msg

record send_result =
  send_rc :: int
  send_errno :: int

record accept_result =
  accept_rc :: int
  accept_errno :: int

record world =
  errno :: int
  recv_in :: "int \<Rightarrow> recv_result list"
  send_in :: "int \<Rightarrow> send_result list"
  accept_in :: "accept_result list"
  close_fails :: "int \<Rightarrow> int option"
  unlink_fails :: "string \<Rightarrow> int option"
  sockname :: "int \<Rightarrow> int + string"
  trace :: "event list"

text \<open>
  Modelled from the spec: the macros of util.h, which is not among the sources, snapshot
  and restore the error number around the calls they enclose. \<^verbatim>\<open>UT_SAVE_ERRNO\<close>
  keeps \<^verbatim>\<open>errno\<close> as it is on entry, \<^verbatim>\<open>UT_RESTORE_ERRNO(x)\<close> stores the current
  value in \<^verbatim>\<open>x\<close> and puts the kept one back, and \<^verbatim>\<open>UT_RESTORE_ERRNO_DC\<close> only
  puts the kept one back. Logging macros have no effect on the endpoint.
\<close>

text \<open>
  A zeroed message (\<^verbatim>\<open>struct ctl_proto_msg req = {}\<close>, and the clients of a freshly
  allocated endpoint). The tag of value zero is taken to be the first of the enumeration.
\<close>

definition zero_attr :: "ctl_proto_limits \<Rightarrow> ctl_proto_attr" where
  "zero_attr K = \<lparr>name = [], value_type = 0,
                 any_value = replicate (CTL_ATTR_VALUE_MAX K) 0, value_len = 0\<rparr>"

definition zero_msg :: "ctl_proto_limits \<Rightarrow> ctl_proto_msg" where
  "zero_msg K =
     \<lparr>type = ctl_proto_type_get_attr_req,
      get_attr_req = \<lparr>attr_name = []\<rparr>,
      get_attr_cfm = \<lparr>attr = zero_attr K\<rparr>,
      get_attr_rej = \<lparr>rej_errno = 0\<rparr>,
      get_all_attr_cfm = \<lparr>attrs = replicate (CTL_PROTO_MAX_ATTRS K) (zero_attr K), attrs_len = 0\<rparr>\<rparr>"

text \<open>
  \<^verbatim>\<open>recv(fd, &req, sizeof(req), 0)\<close>: the result code and the request buffer after the
  call; a failure sets \<^verbatim>\<open>errno\<close>.
\<close>

definition sys_recv :: "ctl_proto_limits \<Rightarrow> int \<Rightarrow> world \<Rightarrow> int \<times> ctl_proto_msg \<times> world" where
  "sys_recv K fd w =
     (case recv_in w fd of
        [] \<Rightarrow> (- 1, zero_msg K, w\<lparr>errno := EAGAIN\<rparr>)
      | r # rs \<Rightarrow>
          (recv_rc r, recv_msg r,
           w\<lparr>recv_in := (recv_in w)(fd := rs),
             errno := (if recv_rc r < 0 then recv_errno r else errno w)\<rparr>))"

text \<open>
  \<^verbatim>\<open>send(fd, &pending_response, sizeof(pending_response), 0)\<close>: a call that does not
  fail hands the message to the transport.
\<close>

definition sys_send :: "ctl_proto_limits \<Rightarrow> int \<Rightarrow> ctl_proto_msg \<Rightarrow> world \<Rightarrow> int \<times> world" where
  "sys_send K fd m w =
     (case send_in w fd of
        [] \<Rightarrow> (int (sizeof_ctl_proto_msg K), w\<lparr>trace := trace w @ [ev_send fd m]\<rparr>)
      | r # rs \<Rightarrow>
          (send_rc r,
           if send_rc r < 0
           then w\<lparr>send_in := (send_in w)(fd := rs), errno := send_errno r\<rparr>
           else w\<lparr>send_in := (send_in w)(fd := rs), trace := trace w @ [ev_send fd m]\<rparr>))"

text \<open>
  Modelled from the spec: \<^verbatim>\<open>ut_close\<close>, \<^verbatim>\<open>ut_is_readable\<close>, \<^verbatim>\<open>ut_accept\<close> and
  \<^verbatim>\<open>ut_free\<close> (util.c) are not among the sources. Closing may fail and leave an error
  number; the listening descriptor is readable when a connection is waiting.
\<close>

definition ut_close :: "int \<Rightarrow> world \<Rightarrow> world" where
  "ut_close fd w =
     w\<lparr>trace := trace w @ [ev_close fd],
       errno := (case close_fails w fd of None \<Rightarrow> errno w | Some e \<Rightarrow> e)\<rparr>"

definition ut_is_readable :: "int \<Rightarrow> world \<Rightarrow> bool" where
  "ut_is_readable fd w = (accept_in w \<noteq> [])"

definition ut_accept :: "int \<Rightarrow> world \<Rightarrow> int \<times> world" where
  "ut_accept fd w =
     (case accept_in w of
        [] \<Rightarrow> (- 1, w\<lparr>errno := EAGAIN\<rparr>)
      | r # rs \<Rightarrow>
          (accept_rc r,
           w\<lparr>accept_in := rs, errno := (if accept_rc r < 0 then accept_errno r else errno w)\<rparr>))"

definition ut_free :: "world \<Rightarrow> world" where
  "ut_free w = w\<lparr>trace := trace w @ [ev_free]\<rparr>"

definition sys_getsockname :: "int \<Rightarrow> world \<Rightarrow> int \<times> string \<times> world" where
  "sys_getsockname fd w =
     (case sockname w fd of
        Inl e \<Rightarrow> (- 1, [], w\<lparr>trace := trace w @ [ev_getsockname fd], errno := e\<rparr>)
      | Inr path \<Rightarrow> (0, path, w\<lparr>trace := trace w @ [ev_getsockname fd]\<rparr>))"

definition sys_unlink :: "string \<Rightarrow> world \<Rightarrow> world" where
  "sys_unlink path w =
     w\<lparr>trace := trace w @ [ev_unlink path],
       errno := (case unlink_fails w path of None \<Rightarrow> errno w | Some e \<Rightarrow> e)\<rparr>"

subsection \<open>The readiness registration set\<close>

text \<open>
  Modelled from the spec: \<^verbatim>\<open>epoll_reg_set.h\<close> is not among the sources; the set is a
  table from descriptors to the interest they are registered for, with add, modify and
  remove.
\<close>

datatype epoll_event = EPOLLIN | EPOLLOUT

type_synonym epoll_reg_set = "int \<rightharpoonup> epoll_event"

definition epoll_reg_set_add :: "epoll_reg_set \<Rightarrow> int \<Rightarrow> epoll_event \<Rightarrow> epoll_reg_set" where
  "epoll_reg_set_add rs fd ev = rs(fd \<mapsto> ev)"

definition epoll_reg_set_mod :: "epoll_reg_set \<Rightarrow> int \<Rightarrow> epoll_event \<Rightarrow> epoll_reg_set" where
  "epoll_reg_set_mod rs fd ev = rs(fd \<mapsto> ev)"

definition epoll_reg_set_del :: "epoll_reg_set \<Rightarrow> int \<Rightarrow> epoll_reg_set" where
  "epoll_reg_set_del rs fd = rs(fd := None)"

subsection \<open>The endpoint\<close>

record client =
  fd :: int
  is_response_pending :: bool
  pending_response :: ctl_proto_msg

text \<open>
  \<open>clients\<close> is the array of \<^verbatim>\<open>MAX_CLIENTS\<close> slots, of which the first \<open>num_clients\<close>
  are in use. Counts and indices are natural numbers: every caller of \<open>remove_client\<close>
  passes an index below a positive count.
\<close>

record ctl =
  socket :: xcm_socket
  server_fd :: int
  clients :: "client list"
  num_clients :: nat
  reg_set :: epoll_reg_set

text \<open>
  \<open>ctl_create K s r\<close>, with \<open>r\<close> the result of \<^verbatim>\<open>create_ux\<close> (the listening
  descriptor, or a negative number): a zeroed endpoint with the listening descriptor
  registered for reading.
\<close>

definition ctl_create :: "ctl_proto_limits \<Rightarrow> xcm_socket \<Rightarrow> int \<Rightarrow> ctl option" where
  "ctl_create K s r =
     (if r < 0 then None
      else Some \<lparr>socket = s, server_fd = r,
                 clients = replicate MAX_CLIENTS
                             \<lparr>fd = 0, is_response_pending = False, pending_response = zero_msg K\<rparr>,
                 num_clients = 0,
                 reg_set = epoll_reg_set_add Map.empty r EPOLLIN\<rparr>)"

definition remove_client :: "nat \<Rightarrow> ctl \<Rightarrow> world \<Rightarrow> ctl \<times> world" where
  "remove_client client_idx c w =
     (let rclient = clients c ! client_idx;
          rs1 = epoll_reg_set_del (reg_set c) (fd rclient);
          w1 = ut_close (fd rclient) w;
          last_idx = num_clients c - 1;
          cs = (if client_idx \<noteq> last_idx
                then (clients c)[client_idx := clients c ! last_idx] else clients c);
          rs2 = (if num_clients c = MAX_CLIENTS
                 then epoll_reg_set_add rs1 (server_fd c) EPOLLIN else rs1)
      in (c\<lparr>clients := cs, num_clients := num_clients c - 1, reg_set := rs2\<rparr>, w1))"

text \<open>
  \<open>process_client K i c w\<close> is one step of the client in slot \<open>i\<close>: the result code and
  the endpoint and environment after it, or the fault that ended the process.
\<close>

definition process_client ::
  "ctl_proto_limits \<Rightarrow> nat \<Rightarrow> ctl \<Rightarrow> world \<Rightarrow> fault + (int \<times> ctl \<times> world)"
where
  "process_client K i c w =
     (let cl = clients c ! i; oerrno = errno w in
      if is_response_pending cl then
        (case sys_send K (fd cl) (pending_response cl) w of (rc, w1) \<Rightarrow>
           let send_errno = errno w1; w2 = w1\<lparr>errno := oerrno\<rparr> in
           if rc < 0 then
             (if send_errno = EAGAIN then Inr (0, c, w2) else Inr (- 1, c, w2))
           else
             Inr (0, c\<lparr>clients := (clients c)[i := cl\<lparr>is_response_pending := False\<rparr>],
                       reg_set := epoll_reg_set_mod (reg_set c) (fd cl) EPOLLIN\<rparr>, w2))
      else
        (case sys_recv K (fd cl) w of (rc, req, w1) \<Rightarrow>
           let recv_errno = errno w1; w2 = w1\<lparr>errno := oerrno\<rparr> in
           if rc < 0 then
             (if recv_errno = EAGAIN then Inr (0, c, w2) else Inr (- 1, c, w2))
           else if rc = 0 then Inr (- 1, c, w2)
           else if rc \<noteq> int (sizeof_ctl_proto_msg K) then Inr (- 1, c, w2)
           else
             let rs = epoll_reg_set_mod (reg_set c) (fd cl) EPOLLOUT;
                 cl1 = cl\<lparr>is_response_pending := True\<rparr>
             in (case type req of
                   ctl_proto_type_get_attr_req \<Rightarrow>
                     Inr (0, c\<lparr>clients := (clients c)
                                 [i := cl1\<lparr>pending_response :=
                                        process_get_attr K (socket c) (errno w2) (get_attr_req req)
                                          (pending_response cl1)\<rparr>],
                               reg_set := rs\<rparr>, w2)
                 | ctl_proto_type_get_all_attr_req \<Rightarrow>
                     (case process_get_all_attr K (socket c) (pending_response cl1) of
                        Inl f \<Rightarrow> Inl f
                      | Inr res \<Rightarrow>
                          Inr (0, c\<lparr>clients := (clients c)[i := cl1\<lparr>pending_response := res\<rparr>],
                                    reg_set := rs\<rparr>, w2))
                 | _ \<Rightarrow>
                     Inr (- 1, c\<lparr>clients := (clients c)[i := cl1\<lparr>is_response_pending := False\<rparr>],
                                 reg_set := rs\<rparr>, w2))))"

definition accept_client :: "ctl \<Rightarrow> world \<Rightarrow> ctl \<times> world" where
  "accept_client c w =
     (if \<not> ut_is_readable (server_fd c) w then (c, w)
      else
        (case ut_accept (server_fd c) w of (client_fd, w1) \<Rightarrow>
           if client_fd < 0 then (c, w1)
           else
             let rs1 = epoll_reg_set_add (reg_set c) client_fd EPOLLIN;
                 n = num_clients c;
                 nclient = (clients c ! n)\<lparr>fd := client_fd, is_response_pending := False\<rparr>;
                 rs2 = (if n + 1 = MAX_CLIENTS then epoll_reg_set_del rs1 (server_fd c) else rs1)
             in (c\<lparr>clients := (clients c)[n := nclient], num_clients := n + 1, reg_set := rs2\<rparr>, w1)))"

text \<open>
  \<open>ctl_process\<close> calls itself after every removal, and an environment can supply
  failing clients for ever, so the model counts its steps: \<open>None\<close> is "not yet returned
  after that many steps". \<open>ctl_process_scan K n i c w\<close> is the \<^verbatim>\<open>for\<close> loop from index
  \<open>i\<close> on. After the nested call returns, the loop goes on with the next index. With
  finitely many scripted results every call returns (\<open>ctl_process_returns\<close> below).
\<close>

fun ctl_process :: "ctl_proto_limits \<Rightarrow> nat \<Rightarrow> ctl \<Rightarrow> world \<Rightarrow> (fault + ctl \<times> world) option"
  and ctl_process_scan ::
    "ctl_proto_limits \<Rightarrow> nat \<Rightarrow> nat \<Rightarrow> ctl \<Rightarrow> world \<Rightarrow> (fault + ctl \<times> world) option"
where
  "ctl_process K 0 c w = None"
| "ctl_process K (Suc n) c w =
     (case ctl_process_scan K n 0 c w of
        None \<Rightarrow> None
      | Some (Inl f) \<Rightarrow> Some (Inl f)
      | Some (Inr (c1, w1)) \<Rightarrow>
          (case (if num_clients c1 < MAX_CLIENTS then accept_client c1 w1 else (c1, w1)) of
             (c2, w2) \<Rightarrow> Some (Inr (c2, w2\<lparr>errno := errno w\<rparr>))))"
| "ctl_process_scan K 0 i c w = None"
| "ctl_process_scan K (Suc n) i c w =
     (if i < num_clients c then
        (case process_client K i c w of
           Inl f \<Rightarrow> Some (Inl f)
         | Inr (rc, c1, w1) \<Rightarrow>
             if rc < 0 then
               (case remove_client i c1 w1 of (c2, w2) \<Rightarrow>
                  (case ctl_process K n c2 w2 of
                     None \<Rightarrow> None
                   | Some (Inl f) \<Rightarrow> Some (Inl f)
                   | Some (Inr (c3, w3)) \<Rightarrow> ctl_process_scan K n (Suc i) c3 w3))
             else ctl_process_scan K n (Suc i) c1 w1)
      else Some (Inr (c, w)))"

text \<open>The \<^verbatim>\<open>while (ctl->num_clients > 0) remove_client(ctl, 0)\<close> of the teardown.\<close>

function remove_all_clients :: "ctl \<Rightarrow> world \<Rightarrow> ctl \<times> world" where
  "remove_all_clients c w =
     (if num_clients c > 0
      then (case remove_client 0 c w of (c1, w1) \<Rightarrow> remove_all_clients c1 w1)
      else (c, w))"
  by pat_completeness auto
termination
  by (relation "measure (\<lambda>(c, w). num_clients c)") (auto simp: remove_client_def Let_def)

text \<open>
  \<open>ctl_destroy\<close> takes the endpoint pointer (\<open>None\<close>: a null pointer) and the owner flag;
  the endpoint does not exist afterwards, so the result is the environment alone.
\<close>

definition ctl_destroy :: "ctl option \<Rightarrow> bool \<Rightarrow> world \<Rightarrow> world" where
  "ctl_destroy p owner w =
     (case p of
        None \<Rightarrow> w
      | Some c \<Rightarrow>
          (case remove_all_clients c w of (c1, w1) \<Rightarrow>
             (case sys_getsockname (server_fd c1) w1 of (rc, laddr, w2) \<Rightarrow>
                let w3 = ut_close (server_fd c1) w2;
                    w4 = (if rc = 0 \<and> owner then sys_unlink laddr w3 else w3);
                    w5 = ut_free w4
                in w5\<lparr>errno := errno w\<rparr>)))"

subsection \<open>An example endpoint\<close>

text \<open>
  Small limits, with the layout in which the confirm member's attribute and the first slot
  of the enumeration member share their storage; a socket with three attributes of which
  one is the private key; and an endpoint listening on descriptor 3. The theorems below
  are instantiated on them.
\<close>

definition ex_limits :: ctl_proto_limits where
  "ex_limits =
     \<lparr>CTL_ATTR_VALUE_MAX = 8, CTL_PROTO_MAX_ATTRS = 4, sizeof_ctl_proto_msg = 64,
      overlay_get_all_attr_cfm =
        (\<lambda>m. (get_all_attr_cfm m)\<lparr>attrs := (attrs (get_all_attr_cfm m))[0 := attr (get_attr_cfm m)]\<rparr>),
      overlay_get_attr =
        (\<lambda>m. (case attrs (get_all_attr_cfm m) of
                   [] \<Rightarrow> get_attr_cfm m
                 | a # as \<Rightarrow> \<lparr>attr = a\<rparr>,
                 get_attr_rej m))\<rparr>"

definition ex_secret :: "byte list" where
  "ex_secret = [0x73, 0x65, 0x63, 0x72, 0x65, 0x74]"

definition ex_socket :: xcm_socket where
  "ex_socket =
     \<lparr>attr_lookup = (\<lambda>a capacity.
         if a = ''tls.key''
         then \<lparr>get_rc = 6, get_errno = None, get_type = Some 3, get_value = ex_secret\<rparr>
         else if a = ''xcm.type''
         then \<lparr>get_rc = 2, get_errno = None, get_type = Some 3, get_value = [0x75, 0x78]\<rparr>
         else \<lparr>get_rc = - 1, get_errno = Some 2, get_type = None, get_value = []\<rparr>),
      attr_visits = [(''xcm.type'', 3, [0x75, 0x78]), (''tls.key'', 3, ex_secret),
                     (''xcm.blocking'', 1, [0x01])]\<rparr>"

text \<open>The same socket with five attributes, none of them sensitive: one more than the slots.\<close>

definition ex_socket_five :: xcm_socket where
  "ex_socket_five =
     ex_socket\<lparr>attr_visits :=
       [(''xcm.type'', 3, [0x75, 0x78]), (''xcm.transport'', 3, [0x75, 0x78]),
        (''xcm.service'', 3, [0x61]), (''xcm.local_addr'', 3, [0x75, 0x78, 0x3a]),
        (''xcm.blocking'', 1, [0x01])]\<rparr>"

text \<open>And with a lookup that fills the whole value buffer.\<close>

definition ex_socket_full_value :: xcm_socket where
  "ex_socket_full_value =
     ex_socket\<lparr>attr_lookup := (\<lambda>a capacity.
        \<lparr>get_rc = 8, get_errno = None, get_type = Some 3, get_value = replicate 8 0x41\<rparr>)\<rparr>"

definition ex_get_attr_req :: "string \<Rightarrow> recv_result" where
  "ex_get_attr_req a =
     \<lparr>recv_rc = 64, recv_errno = 0,
      recv_msg = (zero_msg ex_limits)\<lparr>type := ctl_proto_type_get_attr_req,
                                      get_attr_req := \<lparr>attr_name = a\<rparr>\<rparr>\<rparr>"

definition ex_world :: world where
  "ex_world =
     \<lparr>errno = 0, recv_in = (\<lambda>fd. []), send_in = (\<lambda>fd. []), accept_in = [],
      close_fails = (\<lambda>fd. None), unlink_fails = (\<lambda>path. None),
      sockname = (\<lambda>fd. Inr ''/run/xcm/ctl/ctl-1-0''), trace = []\<rparr>"

definition ex_client :: "int \<Rightarrow> client" where
  "ex_client d = \<lparr>fd = d, is_response_pending = False, pending_response = zero_msg ex_limits\<rparr>"

definition ex_ctl1 :: ctl where
  "ex_ctl1 =
     \<lparr>socket = ex_socket, server_fd = 3, clients = [ex_client 5, ex_client 0], num_clients = 1,
      reg_set = [3 \<mapsto> EPOLLIN, 5 \<mapsto> EPOLLIN]\<rparr>"

definition ex_ctl0 :: ctl where
  "ex_ctl0 =
     \<lparr>socket = ex_socket, server_fd = 3, clients = [ex_client 0, ex_client 0], num_clients = 0,
      reg_set = [3 \<mapsto> EPOLLIN]\<rparr>"

definition ex_ctl2 :: ctl where
  "ex_ctl2 =
     \<lparr>socket = ex_socket, server_fd = 3, clients = [ex_client 5, ex_client 6], num_clients = 2,
      reg_set = [5 \<mapsto> EPOLLIN, 6 \<mapsto> EPOLLIN]\<rparr>"

definition ex_conn :: "int \<Rightarrow> accept_result" where
  "ex_conn d = \<lparr>accept_rc = d, accept_errno = 0\<rparr>"

definition ex_recv :: "int \<Rightarrow> int \<Rightarrow> ctl_proto_type \<Rightarrow> recv_result" where
  "ex_recv rc e t = \<lparr>recv_rc = rc, recv_errno = e, recv_msg = (zero_msg ex_limits)\<lparr>type := t\<rparr>\<rparr>"

definition ex_ctl1_pending :: ctl where
  "ex_ctl1_pending = ex_ctl1\<lparr>clients := [(ex_client 5)\<lparr>is_response_pending := True\<rparr>, ex_client 0],
                             reg_set := [3 \<mapsto> EPOLLIN, 5 \<mapsto> EPOLLOUT]\<rparr>"

definition ex_ctl2_pending :: ctl where
  "ex_ctl2_pending = ex_ctl2\<lparr>clients := [(ex_client 5)\<lparr>is_response_pending := True\<rparr>, ex_client 6],
                             reg_set := [5 \<mapsto> EPOLLOUT, 6 \<mapsto> EPOLLIN]\<rparr>"

definition ex_world_requests :: world where
  "ex_world_requests =
     ex_world\<lparr>recv_in := (\<lambda>fd. if fd = 5 \<or> fd = 6 then [ex_get_attr_req ''xcm.type''] else [])\<rparr>"

definition ex_world_recv :: "int \<Rightarrow> recv_result list \<Rightarrow> world" where
  "ex_world_recv d rs = ex_world\<lparr>recv_in := (\<lambda>fd. if fd = d then rs else [])\<rparr>"

definition ex_world_accept :: "int list \<Rightarrow> world" where
  "ex_world_accept ds = ex_world\<lparr>accept_in := map ex_conn ds\<rparr>"

text \<open>
  Two environments for one call of \<open>ctl_process\<close>. In the first the peer of descriptor
  5 has closed and two connections wait to be accepted. In the second the peer of
  descriptor 5 has closed and one connection waits, whose first request has already
  arrived.
\<close>

definition ex_world_two_waiting :: world where
  "ex_world_two_waiting =
     ex_world\<lparr>recv_in := (\<lambda>fd. if fd = 5 then [ex_recv 0 0 ctl_proto_type_get_attr_req] else []),
              accept_in := [ex_conn 6, ex_conn 7]\<rparr>"

definition ex_world_one_waiting :: world where
  "ex_world_one_waiting =
     ex_world\<lparr>recv_in := (\<lambda>fd. if fd = 5 then [ex_recv 0 0 ctl_proto_type_get_attr_req]
                              else if fd = 7 then [ex_get_attr_req ''xcm.type''] else []),
              accept_in := [ex_conn 7]\<rparr>"

definition ex_world_no_sockname :: world where
  "ex_world_no_sockname = ex_world\<lparr>sockname := (\<lambda>fd. Inl 105)\<rparr>"

text \<open>
  The order in which the teardown closes the clients in use: the first, then the others
  from the last down, since each removal moves the last client into the first slot.
\<close>

definition closing_order :: "int list \<Rightarrow> int list" where
  "closing_order ds = (case ds of [] \<Rightarrow> [] | d # ds' \<Rightarrow> d # rev ds')"

text \<open>
  For stating what an enumeration response lists: what an entry carries (name, type,
  length and the value bytes, which are the first \<open>value_len\<close> bytes of the buffer), and
  what the visits of the non-sensitive attributes report.
\<close>

definition entry_of :: "ctl_proto_attr \<Rightarrow> string \<times> xcm_attr_type \<times> nat \<times> byte list" where
  "entry_of e = (name e, value_type e, value_len e, take (value_len e) (any_value e))"

definition reported :: "attr_visit list \<Rightarrow> (string \<times> xcm_attr_type \<times> nat \<times> byte list) list" where
  "reported vs =
     map (\<lambda>v. (fst v, fst (snd v), length (snd (snd v)), snd (snd v)))
       (filter (\<lambda>v. \<not> is_sensitive (fst v)) vs)"

text \<open>
  The number of scripted results an environment still holds, for environments that script
  finitely many descriptors.
\<close>

definition finite_scripts :: "world \<Rightarrow> bool" where
  "finite_scripts w \<longleftrightarrow> finite {d. recv_in w d \<noteq> []} \<and> finite {d. send_in w d \<noteq> []}"

definition scripted :: "world \<Rightarrow> nat" where
  "scripted w =
     (\<Sum>d \<in> {d. recv_in w d \<noteq> []}. length (recv_in w d))
     + (\<Sum>d \<in> {d. send_in w d \<noteq> []}. length (send_in w d))
     + length (accept_in w)"

text \<open>
  The pool is well formed: the array has its \<^verbatim>\<open>MAX_CLIENTS\<close> slots, the count is within
  it, no client in use has the listening descriptor's number, and the listening descriptor
  is registered for reading exactly when a slot is free.
\<close>

definition pool_inv :: "ctl \<Rightarrow> bool" where
  "pool_inv c \<longleftrightarrow>
     length (clients c) = MAX_CLIENTS \<and> num_clients c \<le> MAX_CLIENTS
     \<and> (\<forall>i < num_clients c. fd (clients c ! i) \<noteq> server_fd c)
     \<and> ((reg_set c (server_fd c) = Some EPOLLIN) = (num_clients c < MAX_CLIENTS))"

text \<open>
  The operating system never hands out the number of an open descriptor: no scripted accept
  returns the listening descriptor itself.
\<close>

definition fresh_accepts :: "ctl \<Rightarrow> world \<Rightarrow> bool" where
  "fresh_accepts c w \<longleftrightarrow> (\<forall>a \<in> set (accept_in w). accept_rc a \<noteq> server_fd c)"

text \<open>
  The endpoints that exist between two calls of the interface: a created one, and what a
  call of \<open>ctl_process\<close> that returns makes of one, in any environment.
\<close>

inductive reachable :: "ctl_proto_limits \<Rightarrow> ctl \<Rightarrow> bool" for K :: ctl_proto_limits where
  created: "ctl_create K s r = Some c \<Longrightarrow> reachable K c"
| processed: "reachable K c \<Longrightarrow> fresh_accepts c w \<Longrightarrow> ctl_process K n c w = Some (Inr (c', w'))
      \<Longrightarrow> reachable K c'"

section \<open>Properties\<close>

lemmas ex_defs = ex_limits_def ex_socket_def ex_get_attr_req_def ex_world_def ex_client_def
  ex_ctl1_def zero_msg_def zero_attr_def ex_secret_def XCM_ATTR_TLS_KEY_def
  ex_ctl0_def ex_ctl2_def ex_conn_def ex_recv_def ex_world_no_sockname_def
  ex_ctl1_pending_def ex_world_recv_def ex_world_accept_def ex_world_two_waiting_def
  ex_world_one_waiting_def ex_ctl2_pending_def ex_world_requests_def

subsection \<open>Attribute lookup\<close>

lemma process_get_attr_sensitive:
  assumes "is_sensitive (attr_name req)"
      and "length (any_value (attr (get_attr_cfm response))) = CTL_ATTR_VALUE_MAX K"
  shows "type (process_get_attr K s e req response) = ctl_proto_type_get_attr_rej"
    and "rej_errno (get_attr_rej (process_get_attr K s e req response)) = EACCES"
    and "any_value (attr (get_attr_cfm (process_get_attr K s e req response)))
           = replicate (CTL_ATTR_VALUE_MAX K) 0"
  using assms
  by (simp_all add: process_get_attr_def xcm_attr_get_def clear_attr_def Let_def)

text \<open>A whole \<^verbatim>\<open>GetAttr\<close> request read from an idle client is answered into its slot.\<close>

lemma process_client_get_attr:
  assumes slot: "i < length (clients c)"
      and idle: "\<not> is_response_pending (clients c ! i)"
      and rx: "recv_in w (fd (clients c ! i)) = r # rs"
      and full: "recv_rc r = int (sizeof_ctl_proto_msg K)" "0 < sizeof_ctl_proto_msg K"
      and req: "type (recv_msg r) = ctl_proto_type_get_attr_req"
  shows "process_client K i c w =
           Inr (0,
                c\<lparr>clients := (clients c)
                     [i := (clients c ! i)
                        \<lparr>is_response_pending := True,
                         pending_response :=
                           process_get_attr K (socket c) (errno w) (get_attr_req (recv_msg r))
                             (pending_response (clients c ! i))\<rparr>],
                  reg_set := epoll_reg_set_mod (reg_set c) (fd (clients c ! i)) EPOLLOUT\<rparr>,
                w\<lparr>recv_in := (recv_in w)(fd (clients c ! i) := rs)\<rparr>)"
  using assms
  by (simp add: process_client_def sys_recv_def Let_def)

text \<open>
  C1. A \<^verbatim>\<open>GetAttr\<close> request for the sensitive attribute, read from an idle client whose
  value buffer has its declared size, is answered by a reject with \<^verbatim>\<open>EACCES\<close>, whatever
  the socket's lookup does; when the step returns, with the response pending and nothing
  sent yet, every byte of the response's value buffer is zero.
\<close>

theorem get_attr_sensitive_rejected:
  assumes slot: "i < length (clients c)"
      and idle: "\<not> is_response_pending (clients c ! i)"
      and rx: "recv_in w (fd (clients c ! i)) = r # rs"
      and full: "recv_rc r = int (sizeof_ctl_proto_msg K)" "0 < sizeof_ctl_proto_msg K"
      and req: "type (recv_msg r) = ctl_proto_type_get_attr_req"
      and sens: "attr_name (get_attr_req (recv_msg r)) = XCM_ATTR_TLS_KEY"
      and buf: "length (any_value (attr (get_attr_cfm (pending_response (clients c ! i)))))
                  = CTL_ATTR_VALUE_MAX K"
  shows "\<exists>c' w'. process_client K i c w = Inr (0, c', w')
           \<and> is_response_pending (clients c' ! i)
           \<and> type (pending_response (clients c' ! i)) = ctl_proto_type_get_attr_rej
           \<and> rej_errno (get_attr_rej (pending_response (clients c' ! i))) = EACCES
           \<and> any_value (attr (get_attr_cfm (pending_response (clients c' ! i))))
               = replicate (CTL_ATTR_VALUE_MAX K) 0
           \<and> trace w' = trace w"
proof -
  have s: "is_sensitive (attr_name (get_attr_req (recv_msg r)))"
    using sens by (simp add: is_sensitive_def)
  show ?thesis
    unfolding process_client_get_attr [OF slot idle rx full req]
    using slot by (simp add: process_get_attr_sensitive [OF s buf])
qed

theorem get_attr_sensitive_rejected_witness:
  "get_rc (attr_lookup (socket ex_ctl1) ''tls.key'' 8) = 6
   \<and> get_value (attr_lookup (socket ex_ctl1) ''tls.key'' 8) = ex_secret
   \<and> (\<exists>c' w'. process_client ex_limits 0 ex_ctl1
                  (ex_world\<lparr>recv_in := (\<lambda>fd. [])(5 := [ex_get_attr_req ''tls.key''])\<rparr>)
                = Inr (0, c', w')
           \<and> is_response_pending (clients c' ! 0)
           \<and> type (pending_response (clients c' ! 0)) = ctl_proto_type_get_attr_rej
           \<and> rej_errno (get_attr_rej (pending_response (clients c' ! 0))) = 13
           \<and> any_value (attr (get_attr_cfm (pending_response (clients c' ! 0))))
               = [0, 0, 0, 0, 0, 0, 0, 0]
           \<and> trace w' = [])"
  using get_attr_sensitive_rejected [of 0 ex_ctl1
      "ex_world\<lparr>recv_in := (\<lambda>fd. [])(5 := [ex_get_attr_req ''tls.key''])\<rparr>"
      "ex_get_attr_req ''tls.key''" "[]" ex_limits]
  by (simp add: ex_defs EACCES_def eval_nat_numeral)

text \<open>
  C6. A \<^verbatim>\<open>GetAttr\<close> request for any other name, read whole from an idle client: the
  step returns 0 and the client stays in its slot with the response pending. When the
  lookup reports a value (its type, its bytes and their number as result code) the
  response is a confirm carrying that type, that length and those bytes; when it fails
  with an error number the response is a reject carrying that number.
\<close>

theorem get_attr_round_trip:
  assumes slot: "i < length (clients c)"
      and idle: "\<not> is_response_pending (clients c ! i)"
      and rx: "recv_in w (fd (clients c ! i)) = r # rs"
      and full: "recv_rc r = int (sizeof_ctl_proto_msg K)" "0 < sizeof_ctl_proto_msg K"
      and req: "type (recv_msg r) = ctl_proto_type_get_attr_req"
      and nm: "attr_name (get_attr_req (recv_msg r)) \<noteq> XCM_ATTR_TLS_KEY"
      and res: "attr_lookup (socket c) (attr_name (get_attr_req (recv_msg r))) (CTL_ATTR_VALUE_MAX K) = res"
  shows "\<exists>c' w'. process_client K i c w = Inr (0, c', w')
           \<and> num_clients c' = num_clients c
           \<and> fd (clients c' ! i) = fd (clients c ! i)
           \<and> is_response_pending (clients c' ! i)
           \<and> (\<forall>t v. get_rc res = int (length v) \<and> get_type res = Some t \<and> get_value res = v
                    \<and> length v \<le> CTL_ATTR_VALUE_MAX K \<longrightarrow>
                  type (pending_response (clients c' ! i)) = ctl_proto_type_get_attr_cfm
                  \<and> value_type (attr (get_attr_cfm (pending_response (clients c' ! i)))) = t
                  \<and> value_len (attr (get_attr_cfm (pending_response (clients c' ! i)))) = length v
                  \<and> take (length v) (any_value (attr (get_attr_cfm (pending_response (clients c' ! i))))) = v)
           \<and> (\<forall>e. get_rc res < 0 \<and> get_errno res = Some e \<longrightarrow>
                  type (pending_response (clients c' ! i)) = ctl_proto_type_get_attr_rej
                  \<and> rej_errno (get_attr_rej (pending_response (clients c' ! i))) = e)"
proof -
  have s: "\<not> is_sensitive (attr_name (get_attr_req (recv_msg r)))"
    using nm by (simp add: is_sensitive_def)
  show ?thesis
    unfolding process_client_get_attr [OF slot idle rx full req]
    using slot s res
    by (auto simp add: process_get_attr_def xcm_attr_get_def Let_def)
qed

theorem get_attr_round_trip_witness:
  "(\<exists>c' w'. process_client ex_limits 0 ex_ctl1
                  (ex_world\<lparr>recv_in := (\<lambda>fd. [])(5 := [ex_get_attr_req ''xcm.type''])\<rparr>)
                = Inr (0, c', w')
           \<and> num_clients c' = 1 \<and> fd (clients c' ! 0) = 5
           \<and> is_response_pending (clients c' ! 0)
           \<and> type (pending_response (clients c' ! 0)) = ctl_proto_type_get_attr_cfm
           \<and> value_type (attr (get_attr_cfm (pending_response (clients c' ! 0)))) = 3
           \<and> value_len (attr (get_attr_cfm (pending_response (clients c' ! 0)))) = 2
           \<and> take 2 (any_value (attr (get_attr_cfm (pending_response (clients c' ! 0))))) = [0x75, 0x78])
   \<and> (\<exists>c' w'. process_client ex_limits 0 ex_ctl1
                  (ex_world\<lparr>recv_in := (\<lambda>fd. [])(5 := [ex_get_attr_req ''no.such'']), errno := 7\<rparr>)
                = Inr (0, c', w')
           \<and> num_clients c' = 1 \<and> fd (clients c' ! 0) = 5
           \<and> is_response_pending (clients c' ! 0)
           \<and> type (pending_response (clients c' ! 0)) = ctl_proto_type_get_attr_rej
           \<and> rej_errno (get_attr_rej (pending_response (clients c' ! 0))) = 2)"
proof -
  show ?thesis
    using get_attr_round_trip [of 0 ex_ctl1
        "ex_world\<lparr>recv_in := (\<lambda>fd. [])(5 := [ex_get_attr_req ''xcm.type''])\<rparr>"
        "ex_get_attr_req ''xcm.type''" "[]" ex_limits
        "\<lparr>get_rc = 2, get_errno = None, get_type = Some 3, get_value = [0x75, 0x78]\<rparr>"]
      get_attr_round_trip [of 0 ex_ctl1
        "ex_world\<lparr>recv_in := (\<lambda>fd. [])(5 := [ex_get_attr_req ''no.such'']), errno := 7\<rparr>"
        "ex_get_attr_req ''no.such''" "[]" ex_limits
        "\<lparr>get_rc = - 1, get_errno = Some 2, get_type = None, get_value = []\<rparr>"]
    by (simp add: ex_defs)
qed

subsection \<open>Attribute enumeration\<close>

lemma add_attr_sensitive: "is_sensitive (fst v) \<Longrightarrow> add_attr K v cfm = Inr cfm"
  by (cases v) (simp add: add_attr_def)

lemma add_attr_Inr:
  assumes "add_attr K v cfm = Inr cfm'" "\<not> is_sensitive (fst v)"
  shows "attrs_len cfm + 1 < CTL_PROTO_MAX_ATTRS K
       \<and> length (snd (snd v)) \<le> CTL_ATTR_VALUE_MAX K
       \<and> attrs_len cfm' = attrs_len cfm + 1
       \<and> attrs cfm' = (attrs cfm)[attrs_len cfm :=
             (attrs cfm ! attrs_len cfm)
               \<lparr>name := fst v, value_type := fst (snd v),
                any_value := snd (snd v)
                   @ drop (length (snd (snd v))) (any_value (attrs cfm ! attrs_len cfm)),
                value_len := length (snd (snd v))\<rparr>]"
  using assms
  by (cases v) (auto simp add: add_attr_def Let_def split: if_splits)

lemma reported_Cons:
  "reported (v # vs) =
     (if is_sensitive (fst v) then reported vs
      else (fst v, fst (snd v), length (snd (snd v)), snd (snd v)) # reported vs)"
  by (simp add: reported_def)

lemma visit_each_add_attr:
  assumes "visit_each (add_attr K) vs cfm = Inr cfm'"
      and "length (attrs cfm) = CTL_PROTO_MAX_ATTRS K"
  shows "length (attrs cfm') = CTL_PROTO_MAX_ATTRS K
       \<and> attrs_len cfm' = attrs_len cfm + length (reported vs)
       \<and> take (attrs_len cfm) (attrs cfm') = take (attrs_len cfm) (attrs cfm)
       \<and> map entry_of (drop (attrs_len cfm) (take (attrs_len cfm') (attrs cfm'))) = reported vs"
  using assms
proof (induction vs arbitrary: cfm)
  case Nil
  then show ?case by (simp add: reported_def)
next
  case (Cons v vs)
  from Cons.prems(1) obtain cfm1 where a: "add_attr K v cfm = Inr cfm1"
    and r: "visit_each (add_attr K) vs cfm1 = Inr cfm'"
    by (auto split: sum.splits)
  show ?case
  proof (cases "is_sensitive (fst v)")
    case True
    then have "cfm1 = cfm" using a by (simp add: add_attr_sensitive)
    moreover have "reported (v # vs) = reported vs" using True by (simp add: reported_Cons)
    ultimately show ?thesis using Cons.IH [of cfm] r Cons.prems(2) by auto
  next
    case False
    let ?i = "attrs_len cfm"
    note f = add_attr_Inr [OF a False]
    have len1: "length (attrs cfm1) = CTL_PROTO_MAX_ATTRS K"
      using f Cons.prems(2) by simp
    note ih = Cons.IH [OF r len1]
    have n1: "attrs_len cfm1 = Suc ?i" using f by simp
    have lt: "?i < CTL_PROTO_MAX_ATTRS K" using f by simp
    have n': "attrs_len cfm' = Suc ?i + length (reported vs)" using ih n1 by simp
    have tk: "take (Suc ?i) (attrs cfm') = take (Suc ?i) (attrs cfm1)" using ih n1 by simp
    have at: "attrs cfm' ! ?i = attrs cfm1 ! ?i"
      using tk by (metis lessI nth_take)
    have pre: "take ?i (attrs cfm') = take ?i (attrs cfm)"
    proof -
      have "take ?i (attrs cfm') = take ?i (take (Suc ?i) (attrs cfm'))" by (simp add: min_def)
      also have "\<dots> = take ?i (take (Suc ?i) (attrs cfm1))" using tk by simp
      also have "\<dots> = take ?i (attrs cfm)" using f by (simp add: min_def)
      finally show ?thesis .
    qed
    have ilt: "?i < length (take (attrs_len cfm') (attrs cfm'))"
      using ih lt n' by simp
    have split: "drop ?i (take (attrs_len cfm') (attrs cfm'))
                  = attrs cfm' ! ?i # drop (Suc ?i) (take (attrs_len cfm') (attrs cfm'))"
      using ilt by (metis Cons_nth_drop_Suc nth_take n' less_add_Suc1 add_Suc)
    have e: "entry_of (attrs cfm1 ! ?i) = (fst v, fst (snd v), length (snd (snd v)), snd (snd v))"
      using f lt Cons.prems(2) by (simp add: entry_of_def)
    have sh: "reported (v # vs) = (fst v, fst (snd v), length (snd (snd v)), snd (snd v)) # reported vs"
      using False by (simp add: reported_Cons)
    show ?thesis
      using ih n1 pre split at e sh by auto
  qed
qed

text \<open>
  The enumeration returns a response when fewer non-sensitive attributes than the response
  has slots are visited, none of their values is longer than the value buffer, and the
  lengths left in the slots it fills are below the buffer's size.
\<close>

lemma visit_each_add_attr_returns:
  assumes "attrs_len cfm + length (reported vs) < CTL_PROTO_MAX_ATTRS K"
      and "\<forall>v \<in> set vs. \<not> is_sensitive (fst v) \<longrightarrow> length (snd (snd v)) \<le> CTL_ATTR_VALUE_MAX K"
      and "\<forall>i. attrs_len cfm \<le> i \<and> i < attrs_len cfm + length (reported vs)
              \<longrightarrow> value_len (attrs cfm ! i) < CTL_ATTR_VALUE_MAX K"
      and "length (attrs cfm) = CTL_PROTO_MAX_ATTRS K"
  shows "\<exists>cfm'. visit_each (add_attr K) vs cfm = Inr cfm'"
  using assms
proof (induction vs arbitrary: cfm)
  case Nil
  then show ?case by simp
next
  case (Cons v vs)
  show ?case
  proof (cases "is_sensitive (fst v)")
    case True
    then show ?thesis
      using Cons.IH [of cfm] Cons.prems by (simp add: add_attr_sensitive reported_Cons)
  next
    case False
    obtain a t x where v: "v = (a, t, x)" by (cases v)
    let ?i = "attrs_len cfm"
    let ?cfm1 = "cfm\<lparr>attrs_len := Suc ?i,
                     attrs := (attrs cfm)[?i := (attrs cfm ! ?i)
                        \<lparr>name := a, value_type := t,
                         any_value := x @ drop (length x) (any_value (attrs cfm ! ?i)),
                         value_len := length x\<rparr>]\<rparr>"
    have r: "reported (v # vs) = (a, t, length x, x) # reported vs"
      using False v by (simp add: reported_Cons)
    have st: "value_len (attrs cfm ! ?i) < CTL_ATTR_VALUE_MAX K"
      using Cons.prems(3) r by simp
    have "add_attr K v cfm = Inr ?cfm1"
      using False v Cons.prems(1,2) r st by (simp add: add_attr_def Let_def)
    moreover have "\<exists>cfm'. visit_each (add_attr K) vs ?cfm1 = Inr cfm'"
    proof (rule Cons.IH)
      show "attrs_len ?cfm1 + length (reported vs) < CTL_PROTO_MAX_ATTRS K"
        using Cons.prems(1) r by simp
      show "\<forall>v \<in> set vs. \<not> is_sensitive (fst v) \<longrightarrow> length (snd (snd v)) \<le> CTL_ATTR_VALUE_MAX K"
        using Cons.prems(2) by simp
      show "\<forall>i. attrs_len ?cfm1 \<le> i \<and> i < attrs_len ?cfm1 + length (reported vs)
              \<longrightarrow> value_len (attrs ?cfm1 ! i) < CTL_ATTR_VALUE_MAX K"
        using Cons.prems(3) r by simp
      show "length (attrs ?cfm1) = CTL_PROTO_MAX_ATTRS K"
        using Cons.prems(4) by simp
    qed
    ultimately show ?thesis by simp
  qed
qed

text \<open>
  A response lists as many entries as non-sensitive attributes were visited, and with one
  or more of them the count stays below the number of slots: the visit that would make the
  count reach it fails the first assertion.
\<close>

lemma visit_each_add_attr_count:
  assumes "visit_each (add_attr K) vs cfm = Inr cfm'"
  shows "attrs_len cfm' = attrs_len cfm + length (reported vs)
       \<and> (reported vs \<noteq> [] \<longrightarrow> attrs_len cfm' < CTL_PROTO_MAX_ATTRS K)"
  using assms
proof (induction vs arbitrary: cfm)
  case Nil
  then show ?case by (simp add: reported_def)
next
  case (Cons v vs)
  from Cons.prems obtain cfm1 where a: "add_attr K v cfm = Inr cfm1"
    and r: "visit_each (add_attr K) vs cfm1 = Inr cfm'"
    by (auto split: sum.splits)
  note ih = Cons.IH [OF r]
  show ?case
  proof (cases "is_sensitive (fst v)")
    case True
    then have "cfm1 = cfm" using a by (simp add: add_attr_sensitive)
    then show ?thesis using ih True by (auto simp add: reported_Cons)
  next
    case False
    note f = add_attr_Inr [OF a False]
    show ?thesis using ih f False by (auto simp add: reported_Cons)
  qed
qed

lemma process_get_all_attr_Inr:
  "(process_get_all_attr K s response = Inr res) =
     (\<exists>cfm. visit_each (add_attr K) (attr_visits s) ((get_all_attr_cfm response)\<lparr>attrs_len := 0\<rparr>) = Inr cfm
          \<and> res = (response\<lparr>get_all_attr_cfm := cfm\<rparr>)
                   \<lparr>get_attr_cfm := fst (overlay_get_attr K (response\<lparr>get_all_attr_cfm := cfm\<rparr>)),
                    get_attr_rej := snd (overlay_get_attr K (response\<lparr>get_all_attr_cfm := cfm\<rparr>))\<rparr>)"
  by (auto simp add: process_get_all_attr_def xcm_attr_get_all_def Let_def split: sum.splits)

text \<open>
  Five attributes, none sensitive, into the four slots of a zeroed response: the
  enumeration fails the count assertion, and there is no response.
\<close>

theorem get_all_attr_over_capacity:
  "process_get_all_attr ex_limits ex_socket_five (zero_msg ex_limits) = Inl assertion_failed"
  by (simp add: process_get_all_attr_def xcm_attr_get_all_def add_attr_def is_sensitive_def
        ex_defs ex_socket_five_def Let_def eval_nat_numeral)

text \<open>
  C3, as the code has it. Take a response buffer with its \<^verbatim>\<open>CTL_PROTO_MAX_ATTRS\<close> slots.
  For every attribute table with fewer non-sensitive attributes than the response has
  slots, none of their values longer than the value buffer, and the slots that will be
  filled holding lengths below the buffer's size, the handler produces a response; it
  lists exactly the non-sensitive attributes the visitor was called with, in that order:
  the count is their number, entry by entry the name, the type, the length and the value
  bytes are those reported, and no listed entry bears the sensitive name. For every table
  with more non-sensitive attributes than slots the handler produces no response.
\<close>

theorem get_all_attr_response:
  assumes "length (attrs (get_all_attr_cfm response)) = CTL_PROTO_MAX_ATTRS K"
  shows "(length (filter (\<lambda>v. \<not> is_sensitive (fst v)) (attr_visits s)) < CTL_PROTO_MAX_ATTRS K
          \<and> (\<forall>v \<in> set (attr_visits s).
                \<not> is_sensitive (fst v) \<longrightarrow> length (snd (snd v)) \<le> CTL_ATTR_VALUE_MAX K)
          \<and> (\<forall>i < length (filter (\<lambda>v. \<not> is_sensitive (fst v)) (attr_visits s)).
                value_len (attrs (get_all_attr_cfm response) ! i) < CTL_ATTR_VALUE_MAX K)
          \<longrightarrow> (\<exists>res. process_get_all_attr K s response = Inr res
                 \<and> attrs_len (get_all_attr_cfm res)
                     = length (filter (\<lambda>v. \<not> is_sensitive (fst v)) (attr_visits s))
                 \<and> map (\<lambda>e. (name e, value_type e, value_len e, take (value_len e) (any_value e)))
                      (take (attrs_len (get_all_attr_cfm res)) (attrs (get_all_attr_cfm res)))
                     = map (\<lambda>v. (fst v, fst (snd v), length (snd (snd v)), snd (snd v)))
                         (filter (\<lambda>v. \<not> is_sensitive (fst v)) (attr_visits s))
                 \<and> (\<forall>e \<in> set (take (attrs_len (get_all_attr_cfm res)) (attrs (get_all_attr_cfm res))).
                       \<not> is_sensitive (name e))))
       \<and> (CTL_PROTO_MAX_ATTRS K < length (filter (\<lambda>v. \<not> is_sensitive (fst v)) (attr_visits s))
          \<longrightarrow> (\<exists>f. process_get_all_attr K s response = Inl f))"
proof (intro conjI impI)
  let ?start = "(get_all_attr_cfm response)\<lparr>attrs_len := 0\<rparr>"
  let ?n = "length (filter (\<lambda>v. \<not> is_sensitive (fst v)) (attr_visits s))"
  have rn: "length (reported (attr_visits s)) = ?n" by (simp add: reported_def)
  have l: "length (attrs ?start) = CTL_PROTO_MAX_ATTRS K" using assms by simp
  {
    assume h: "?n < CTL_PROTO_MAX_ATTRS K
          \<and> (\<forall>v \<in> set (attr_visits s).
                \<not> is_sensitive (fst v) \<longrightarrow> length (snd (snd v)) \<le> CTL_ATTR_VALUE_MAX K)
          \<and> (\<forall>i < ?n. value_len (attrs (get_all_attr_cfm response) ! i) < CTL_ATTR_VALUE_MAX K)"
    have "\<exists>cfm. visit_each (add_attr K) (attr_visits s) ?start = Inr cfm"
    proof (rule visit_each_add_attr_returns)
      show "attrs_len ?start + length (reported (attr_visits s)) < CTL_PROTO_MAX_ATTRS K"
        using h rn by simp
      show "\<forall>v \<in> set (attr_visits s).
                \<not> is_sensitive (fst v) \<longrightarrow> length (snd (snd v)) \<le> CTL_ATTR_VALUE_MAX K"
        using h by blast
      show "\<forall>i. attrs_len ?start \<le> i \<and> i < attrs_len ?start + length (reported (attr_visits s))
              \<longrightarrow> value_len (attrs ?start ! i) < CTL_ATTR_VALUE_MAX K"
        using h rn by simp
      show "length (attrs ?start) = CTL_PROTO_MAX_ATTRS K" by (rule l)
    qed
    then obtain cfm where v: "visit_each (add_attr K) (attr_visits s) ?start = Inr cfm" ..
    then obtain res where r: "process_get_all_attr K s response = Inr res"
      and c: "get_all_attr_cfm res = cfm"
      by (simp add: process_get_all_attr_Inr)
    note i = visit_each_add_attr [OF v l]
    have n: "attrs_len cfm = ?n" using i rn by simp
    have m: "map entry_of (take (attrs_len cfm) (attrs cfm)) = reported (attr_visits s)"
      using i by auto
    have x: "\<not> is_sensitive (name e)" if "e \<in> set (take (attrs_len cfm) (attrs cfm))" for e
    proof -
      from that have "entry_of e \<in> set (reported (attr_visits s))"
        using m by (metis image_eqI set_map)
      then show ?thesis by (auto simp add: entry_of_def reported_def)
    qed
    have "attrs_len (get_all_attr_cfm res) = ?n
        \<and> map (\<lambda>e. (name e, value_type e, value_len e, take (value_len e) (any_value e)))
             (take (attrs_len (get_all_attr_cfm res)) (attrs (get_all_attr_cfm res)))
            = map (\<lambda>v. (fst v, fst (snd v), length (snd (snd v)), snd (snd v)))
                (filter (\<lambda>v. \<not> is_sensitive (fst v)) (attr_visits s))
        \<and> (\<forall>e \<in> set (take (attrs_len (get_all_attr_cfm res)) (attrs (get_all_attr_cfm res))).
              \<not> is_sensitive (name e))"
      using n m x c unfolding reported_def entry_of_def by auto
    then show "\<exists>res. process_get_all_attr K s response = Inr res
                 \<and> attrs_len (get_all_attr_cfm res) = ?n
                 \<and> map (\<lambda>e. (name e, value_type e, value_len e, take (value_len e) (any_value e)))
                      (take (attrs_len (get_all_attr_cfm res)) (attrs (get_all_attr_cfm res)))
                     = map (\<lambda>v. (fst v, fst (snd v), length (snd (snd v)), snd (snd v)))
                         (filter (\<lambda>v. \<not> is_sensitive (fst v)) (attr_visits s))
                 \<and> (\<forall>e \<in> set (take (attrs_len (get_all_attr_cfm res)) (attrs (get_all_attr_cfm res))).
                       \<not> is_sensitive (name e))"
      using r by blast
  }
  {
    assume big: "CTL_PROTO_MAX_ATTRS K < ?n"
    show "\<exists>f. process_get_all_attr K s response = Inl f"
    proof (cases "process_get_all_attr K s response")
      case (Inl f)
      then show ?thesis by blast
    next
      case (Inr res)
      then obtain cfm where v: "visit_each (add_attr K) (attr_visits s) ?start = Inr cfm"
        by (auto simp add: process_get_all_attr_Inr)
      from visit_each_add_attr_count [OF v] rn big have False by auto
      then show ?thesis ..
    qed
  }
qed

theorem get_all_attr_response_witness:
  "(\<exists>res. process_get_all_attr ex_limits ex_socket (zero_msg ex_limits) = Inr res
      \<and> attrs_len (get_all_attr_cfm res) = 2
      \<and> map (\<lambda>e. (name e, value_type e, value_len e, take (value_len e) (any_value e)))
            (take (attrs_len (get_all_attr_cfm res)) (attrs (get_all_attr_cfm res)))
         = [(''xcm.type'', 3, 2, [0x75, 0x78]), (''xcm.blocking'', 1, 1, [0x01])])
   \<and> (\<exists>f. process_get_all_attr ex_limits ex_socket_five (zero_msg ex_limits) = Inl f)"
proof -
  have l: "length (attrs (get_all_attr_cfm (zero_msg ex_limits))) = CTL_PROTO_MAX_ATTRS ex_limits"
    by (simp add: ex_defs)
  note a = get_all_attr_response [OF l, of ex_socket, THEN conjunct1, rule_format]
  note b = get_all_attr_response [OF l, of ex_socket_five, THEN conjunct2, rule_format]
  have f: "filter (\<lambda>v. \<not> is_sensitive (fst v)) (attr_visits ex_socket)
             = [(''xcm.type'', 3, [0x75, 0x78]), (''xcm.blocking'', 1, [0x01])]"
    by (simp add: ex_defs is_sensitive_def)
  have h1: "length (filter (\<lambda>v. \<not> is_sensitive (fst v)) (attr_visits ex_socket))
              < CTL_PROTO_MAX_ATTRS ex_limits"
    unfolding f by (simp add: ex_limits_def)
  have h2: "\<forall>v \<in> set (attr_visits ex_socket).
              \<not> is_sensitive (fst v) \<longrightarrow> length (snd (snd v)) \<le> CTL_ATTR_VALUE_MAX ex_limits"
    by (simp add: ex_defs)
  have h3: "\<forall>i < length (filter (\<lambda>v. \<not> is_sensitive (fst v)) (attr_visits ex_socket)).
              value_len (attrs (get_all_attr_cfm (zero_msg ex_limits)) ! i)
                < CTL_ATTR_VALUE_MAX ex_limits"
    unfolding f by (simp add: ex_defs less_Suc_eq eval_nat_numeral)
  have "\<exists>res. process_get_all_attr ex_limits ex_socket (zero_msg ex_limits) = Inr res
      \<and> attrs_len (get_all_attr_cfm res) = 2
      \<and> map (\<lambda>e. (name e, value_type e, value_len e, take (value_len e) (any_value e)))
            (take (attrs_len (get_all_attr_cfm res)) (attrs (get_all_attr_cfm res)))
         = [(''xcm.type'', 3, 2, [0x75, 0x78]), (''xcm.blocking'', 1, 1, [0x01])]"
    using a [OF conjI [OF h1 conjI [OF h2 h3]]] unfolding f by (auto simp add: numeral_2_eq_2)
  moreover have "CTL_PROTO_MAX_ATTRS ex_limits
      < length (filter (\<lambda>v. \<not> is_sensitive (fst v)) (attr_visits ex_socket_five))"
    by (simp add: ex_defs ex_socket_five_def is_sensitive_def)
  then have "\<exists>f. process_get_all_attr ex_limits ex_socket_five (zero_msg ex_limits) = Inl f"
    by (rule b)
  ultimately show ?thesis by blast
qed

text \<open>
  What decides the two assertions of \<open>add_attr\<close>: the second reads the length the slot
  holds from an earlier response, not the length of the value about to be copied; the
  first fails as soon as the count reaches the number of slots.
\<close>

lemma add_attr_asserts_on_slot_length:
  assumes "\<not> is_sensitive a" "attrs_len cfm + 1 < CTL_PROTO_MAX_ATTRS K"
  shows "(add_attr K (a, t, x) cfm = Inl assertion_failed)
           = (CTL_ATTR_VALUE_MAX K \<le> value_len (attrs cfm ! attrs_len cfm))"
  using assms by (auto simp add: add_attr_def Let_def)

lemma add_attr_asserts_on_count:
  assumes "\<not> is_sensitive a" "CTL_PROTO_MAX_ATTRS K \<le> attrs_len cfm + 1"
  shows "add_attr K (a, t, x) cfm = Inl assertion_failed"
  using assms by (auto simp add: add_attr_def Let_def)

text \<open>
  C2. With a value buffer of 8 bytes and 4 slots: a single attribute with a 9-byte value
  passes both assertions on a zeroed response, and the copy overruns the buffer; a single
  attribute with an 8-byte value is enumerated once, and the second enumeration into the
  same response fails the length assertion; four attributes of two bytes fail the count
  assertion.
\<close>

theorem get_all_attr_bound_checks:
  "process_get_all_attr ex_limits (ex_socket\<lparr>attr_visits := [(''xcm.type'', 3, replicate 9 0x41)]\<rparr>)
       (zero_msg ex_limits) = Inl buffer_overrun
   \<and> (\<exists>m. process_get_all_attr ex_limits
              (ex_socket\<lparr>attr_visits := [(''xcm.type'', 3, replicate 8 0x41)]\<rparr>) (zero_msg ex_limits) = Inr m
          \<and> process_get_all_attr ex_limits
              (ex_socket\<lparr>attr_visits := [(''xcm.type'', 3, replicate 8 0x41)]\<rparr>) m = Inl assertion_failed)
   \<and> process_get_all_attr ex_limits (ex_socket\<lparr>attr_visits := replicate 4 (''xcm.type'', 3, [0x75, 0x78])\<rparr>)
       (zero_msg ex_limits) = Inl assertion_failed"
  by (simp add: process_get_all_attr_def xcm_attr_get_all_def add_attr_def is_sensitive_def
        ex_defs Let_def eval_nat_numeral)

text \<open>
  The shared storage at work, in the layout of the example: a lookup that fills the whole
  value buffer leaves its length, 8, in the first slot, and an enumeration into the same
  response then fails the length assertion, although the table honours both bounds.
\<close>

lemma get_attr_then_get_all_attr_aborts:
  "process_get_all_attr ex_limits ex_socket
     (process_get_attr ex_limits ex_socket_full_value 0 \<lparr>attr_name = ''xcm.type''\<rparr> (zero_msg ex_limits))
     = Inl assertion_failed"
  by (simp add: process_get_all_attr_def process_get_attr_def xcm_attr_get_def xcm_attr_get_all_def
        add_attr_def is_sensitive_def ex_defs ex_socket_full_value_def Let_def eval_nat_numeral)

subsection \<open>The per-client step\<close>

lemma process_client_would_block:
  assumes "\<not> is_response_pending (clients c ! i)"
      and "recv_in w (fd (clients c ! i)) = []"
  shows "process_client K i c w = Inr (0, c, w)"
  using assms by (simp add: process_client_def sys_recv_def Let_def)

lemma process_client_recv_fails:
  assumes "\<not> is_response_pending (clients c ! i)"
      and "recv_in w (fd (clients c ! i)) = r # rs"
      and "recv_rc r < 0"
  shows "process_client K i c w =
           Inr (if recv_errno r = EAGAIN then 0 else - 1, c,
                w\<lparr>recv_in := (recv_in w)(fd (clients c ! i) := rs)\<rparr>)"
  using assms by (simp add: process_client_def sys_recv_def Let_def)

lemma process_client_recv_short:
  assumes "\<not> is_response_pending (clients c ! i)"
      and "recv_in w (fd (clients c ! i)) = r # rs"
      and "0 \<le> recv_rc r" "recv_rc r = 0 \<or> recv_rc r \<noteq> int (sizeof_ctl_proto_msg K)"
  shows "process_client K i c w =
           Inr (- 1, c, w\<lparr>recv_in := (recv_in w)(fd (clients c ! i) := rs)\<rparr>)"
proof (cases "recv_rc r = 0")
  case True
  then show ?thesis using assms(1,2) by (simp add: process_client_def sys_recv_def Let_def)
next
  case False
  then show ?thesis using assms by (simp add: process_client_def sys_recv_def Let_def)
qed

lemma process_client_unknown_tag:
  assumes "\<not> is_response_pending (clients c ! i)"
      and "recv_in w (fd (clients c ! i)) = r # rs"
      and "recv_rc r = int (sizeof_ctl_proto_msg K)"
      and "type (recv_msg r) \<noteq> ctl_proto_type_get_attr_req"
      and "type (recv_msg r) \<noteq> ctl_proto_type_get_all_attr_req"
  shows "process_client K i c w =
           Inr (- 1,
                if 0 < sizeof_ctl_proto_msg K
                then c\<lparr>clients := (clients c)[i := (clients c ! i)\<lparr>is_response_pending := False\<rparr>],
                       reg_set := epoll_reg_set_mod (reg_set c) (fd (clients c ! i)) EPOLLOUT\<rparr>
                else c,
                w\<lparr>recv_in := (recv_in w)(fd (clients c ! i) := rs)\<rparr>)"
  using assms
  by (cases "type (recv_msg r)") (simp_all add: process_client_def sys_recv_def Let_def)

lemma process_client_pending:
  assumes "is_response_pending (clients c ! i)"
  shows "process_client K i c w =
     (case send_in w (fd (clients c ! i)) of
        [] \<Rightarrow> Inr (0, c\<lparr>clients := (clients c)[i := (clients c ! i)\<lparr>is_response_pending := False\<rparr>],
                        reg_set := epoll_reg_set_mod (reg_set c) (fd (clients c ! i)) EPOLLIN\<rparr>,
                    w\<lparr>trace := trace w @ [ev_send (fd (clients c ! i)) (pending_response (clients c ! i))]\<rparr>)
      | r # rs \<Rightarrow>
          if send_rc r < 0
          then Inr (if send_errno r = EAGAIN then 0 else - 1, c,
                    w\<lparr>send_in := (send_in w)(fd (clients c ! i) := rs)\<rparr>)
          else Inr (0, c\<lparr>clients := (clients c)[i := (clients c ! i)\<lparr>is_response_pending := False\<rparr>],
                        reg_set := epoll_reg_set_mod (reg_set c) (fd (clients c ! i)) EPOLLIN\<rparr>,
                    w\<lparr>send_in := (send_in w)(fd (clients c ! i) := rs),
                      trace := trace w @ [ev_send (fd (clients c ! i)) (pending_response (clients c ! i))]\<rparr>))"
  using assms
  by (auto simp add: process_client_def sys_send_def Let_def split: list.splits)

text \<open>
  The same on a client, in the layout of the example: a lookup request answered with a
  value of 8 bytes, the response sent, and the enumeration request that follows on the
  same client ends the process at the length assertion.
\<close>

lemma get_attr_then_get_all_attr_on_a_client:
  "\<exists>c1 w1 c2 w2.
     process_client ex_limits 0 (ex_ctl1\<lparr>socket := ex_socket_full_value\<rparr>)
        (ex_world_recv 5 [ex_get_attr_req ''xcm.type'', ex_recv 64 0 ctl_proto_type_get_all_attr_req])
       = Inr (0, c1, w1)
     \<and> value_len (attr (get_attr_cfm (pending_response (clients c1 ! 0)))) = 8
     \<and> process_client ex_limits 0 c1 w1 = Inr (0, c2, w2)
     \<and> trace w2 = [ev_send 5 (pending_response (clients c1 ! 0))]
     \<and> process_client ex_limits 0 c2 w2 = Inl assertion_failed"
  by (simp add: process_client_def sys_recv_def sys_send_def epoll_reg_set_mod_def
        process_get_all_attr_def process_get_attr_def xcm_attr_get_def xcm_attr_get_all_def
        add_attr_def is_sensitive_def ex_defs ex_socket_full_value_def Let_def EAGAIN_def)

lemma map_fd_update:
  assumes "fd x = fd (xs ! i)"
  shows "map fd (xs[i := x]) = map fd xs"
proof (cases "i < length xs")
  case True
  then show ?thesis using assms by (simp add: map_update list_update_same_conv)
next
  case False
  then have "length xs \<le> i" by simp
  then show ?thesis by (simp add: list_update_beyond)
qed

lemma process_client_frame:
  assumes "process_client K i c w = Inr (rc, c', w')"
  shows "num_clients c' = num_clients c \<and> server_fd c' = server_fd c \<and> socket c' = socket c
       \<and> map fd (clients c') = map fd (clients c)
       \<and> (reg_set c' = reg_set c \<or> (\<exists>ev. reg_set c' = (reg_set c)(fd (clients c ! i) \<mapsto> ev)))
       \<and> accept_in w' = accept_in w \<and> errno w' = errno w
       \<and> close_fails w' = close_fails w \<and> unlink_fails w' = unlink_fails w
       \<and> sockname w' = sockname w
       \<and> (\<exists>t. trace w' = trace w @ t) \<and> (rc < 0 \<longrightarrow> trace w' = trace w)"
proof (cases "is_response_pending (clients c ! i)")
  case True
  show ?thesis
    using assms unfolding process_client_pending [OF True]
    by (auto simp add: epoll_reg_set_mod_def map_fd_update split: list.splits if_splits)
next
  case False
  show ?thesis
    using assms False
    by (auto simp add: process_client_def sys_recv_def Let_def epoll_reg_set_mod_def map_fd_update
             split: list.splits if_splits ctl_proto_type.splits sum.splits)
qed




subsection \<open>The pool and the listening descriptor\<close>

lemma ctl_create_inv: "ctl_create K s r = Some c \<Longrightarrow> pool_inv c \<and> num_clients c = 0"
  by (auto simp add: ctl_create_def pool_inv_def epoll_reg_set_add_def MAX_CLIENTS_def
           split: if_splits)

lemma remove_client_effect:
  assumes "remove_client i c w = (c', w')"
  shows "num_clients c' = num_clients c - 1 \<and> server_fd c' = server_fd c \<and> socket c' = socket c
       \<and> length (clients c') = length (clients c)
       \<and> trace w' = trace w @ [ev_close (fd (clients c ! i))]
       \<and> accept_in w' = accept_in w \<and> recv_in w' = recv_in w \<and> send_in w' = send_in w
       \<and> close_fails w' = close_fails w \<and> unlink_fails w' = unlink_fails w
       \<and> sockname w' = sockname w"
  using assms by (auto simp add: remove_client_def ut_close_def Let_def)

lemma remove_client_inv:
  assumes "remove_client i c w = (c', w')" "pool_inv c" "i < num_clients c"
  shows "pool_inv c'"
proof -
  have n: "num_clients c = 1 \<or> num_clients c = 2" and l: "length (clients c) = 2"
    using assms(2,3) by (auto simp add: pool_inv_def MAX_CLIENTS_def)
  from n show ?thesis
  proof
    assume "num_clients c = 1"
    then show ?thesis
      using assms l
      by (auto simp add: pool_inv_def remove_client_def Let_def MAX_CLIENTS_def
            epoll_reg_set_del_def epoll_reg_set_add_def)
  next
    assume two: "num_clients c = 2"
    then have "i = 0 \<or> i = 1" using assms(3) by auto
    then show ?thesis
    proof
      assume "i = 0"
      then show ?thesis
        using assms l two
        by (auto simp add: pool_inv_def remove_client_def Let_def MAX_CLIENTS_def
              epoll_reg_set_del_def epoll_reg_set_add_def)
    next
      assume "i = 1"
      then show ?thesis
        using assms l two
        by (auto simp add: pool_inv_def remove_client_def Let_def MAX_CLIENTS_def
              epoll_reg_set_del_def epoll_reg_set_add_def)
    qed
  qed
qed

lemma process_client_inv:
  assumes "process_client K i c w = Inr (rc, c', w')" "pool_inv c" "i < num_clients c"
  shows "pool_inv c'"
proof -
  note f = process_client_frame [OF assms(1)]
  have fds: "fd (clients c' ! j) = fd (clients c ! j)" if "j < length (clients c)" for j
  proof -
    have "map fd (clients c') ! j = map fd (clients c) ! j" using f by simp
    moreover have "length (clients c') = length (clients c)"
      using f by (metis length_map)
    ultimately show ?thesis using that by simp
  qed
  have len: "length (clients c') = length (clients c)" using f by (metis length_map)
  have ne: "fd (clients c ! i) \<noteq> server_fd c" using assms(2,3) by (simp add: pool_inv_def)
  have rs: "reg_set c' (server_fd c) = reg_set c (server_fd c)"
    using f ne by auto
  show ?thesis
    using assms(2) f fds len rs by (auto simp add: pool_inv_def)
qed

lemma accept_client_effect:
  assumes "accept_client c w = (c', w')"
  shows "server_fd c' = server_fd c \<and> socket c' = socket c \<and> trace w' = trace w
       \<and> (accept_in w' = accept_in w \<or> accept_in w' = tl (accept_in w))
       \<and> close_fails w' = close_fails w \<and> unlink_fails w' = unlink_fails w
       \<and> sockname w' = sockname w"
  using assms
  by (auto simp add: accept_client_def ut_is_readable_def ut_accept_def Let_def
           split: if_splits list.splits prod.splits)

lemma accept_client_inv:
  assumes "accept_client c w = (c', w')" "pool_inv c" "num_clients c < MAX_CLIENTS"
      and "fresh_accepts c w"
  shows "pool_inv c' \<and> fresh_accepts c' w'"
proof -
  have n: "num_clients c = 0 \<or> num_clients c = 1" and l: "length (clients c) = 2"
    using assms(2,3) by (auto simp add: pool_inv_def MAX_CLIENTS_def)
  from n show ?thesis
  proof
    assume "num_clients c = 0"
    then show ?thesis
      using assms l
      by (auto simp add: pool_inv_def fresh_accepts_def accept_client_def ut_is_readable_def
            ut_accept_def Let_def MAX_CLIENTS_def epoll_reg_set_del_def epoll_reg_set_add_def
            split: if_splits list.splits)
  next
    assume "num_clients c = 1"
    then show ?thesis
      using assms l
      by (auto simp add: pool_inv_def fresh_accepts_def accept_client_def ut_is_readable_def
            ut_accept_def Let_def MAX_CLIENTS_def epoll_reg_set_del_def epoll_reg_set_add_def
            nth_list_update less_Suc_eq
            split: if_splits list.splits)
  qed
qed


lemma fresh_accepts_cong:
  "fresh_accepts c w \<Longrightarrow> server_fd c' = server_fd c \<Longrightarrow> accept_in w' = accept_in w
     \<Longrightarrow> fresh_accepts c' w'"
  by (simp add: fresh_accepts_def)

text \<open>
  What a call of \<open>ctl_process\<close>, and of its loop from any index, keeps: the pool stays
  well formed, and the trace only grows.
\<close>

lemma ctl_process_keeps_aux:
  "(\<forall>c w c' w'. ctl_process K n c w = Some (Inr (c', w')) \<longrightarrow> pool_inv c \<longrightarrow> fresh_accepts c w
        \<longrightarrow> pool_inv c' \<and> fresh_accepts c' w' \<and> server_fd c' = server_fd c
            \<and> (\<exists>t. trace w' = trace w @ t))
   \<and> (\<forall>i c w c' w'. ctl_process_scan K n i c w = Some (Inr (c', w')) \<longrightarrow> pool_inv c
        \<longrightarrow> fresh_accepts c w
        \<longrightarrow> pool_inv c' \<and> fresh_accepts c' w' \<and> server_fd c' = server_fd c
            \<and> (\<exists>t. trace w' = trace w @ t))"
proof (induction n)
  case 0
  show ?case by simp
next
  case (Suc n)
  note P = Suc.IH [THEN conjunct1, rule_format]
  note Q = Suc.IH [THEN conjunct2, rule_format]
  have p: "pool_inv c' \<and> fresh_accepts c' w' \<and> server_fd c' = server_fd c
             \<and> (\<exists>t. trace w' = trace w @ t)"
    if r: "ctl_process K (Suc n) c w = Some (Inr (c', w'))" and i: "pool_inv c"
      and f: "fresh_accepts c w" for c w c' w'
  proof -
    from r obtain c1 w1 where s: "ctl_process_scan K n 0 c w = Some (Inr (c1, w1))"
      by (auto split: option.splits sum.splits)
    note q = Q [OF s i f]
    show ?thesis
    proof (cases "num_clients c1 < MAX_CLIENTS")
      case True
      obtain c2 w2 where a: "accept_client c1 w1 = (c2, w2)" by (cases "accept_client c1 w1")
      from r s True a have e: "c' = c2" "w' = w2\<lparr>errno := errno w\<rparr>" by auto
      from accept_client_inv [OF a _ True] q have "pool_inv c2 \<and> fresh_accepts c2 w2" by simp
      moreover note accept_client_effect [OF a]
      ultimately show ?thesis using q e by (auto simp add: fresh_accepts_def)
    next
      case False
      with r s have e: "c' = c1" "w' = w1\<lparr>errno := errno w\<rparr>" by auto
      then show ?thesis using q by (auto simp add: fresh_accepts_def)
    qed
  qed
  have q: "pool_inv c' \<and> fresh_accepts c' w' \<and> server_fd c' = server_fd c
             \<and> (\<exists>t. trace w' = trace w @ t)"
    if r: "ctl_process_scan K (Suc n) i c w = Some (Inr (c', w'))" and i: "pool_inv c"
      and f: "fresh_accepts c w" for i c w c' w'
  proof (cases "i < num_clients c")
    case False
    with r show ?thesis using i f by simp
  next
    case True
    from r True obtain rc c1 w1 where pc: "process_client K i c w = Inr (rc, c1, w1)"
      by (auto split: sum.splits)
    note fr = process_client_frame [OF pc]
    have i1: "pool_inv c1" by (rule process_client_inv [OF pc i True])
    have f1: "fresh_accepts c1 w1" using f fr by (simp add: fresh_accepts_def)
    show ?thesis
    proof (cases "rc < 0")
      case False
      with r True pc have "ctl_process_scan K n (Suc i) c1 w1 = Some (Inr (c', w'))" by simp
      from Q [OF this i1 f1] fr show ?thesis by auto
    next
      case neg: True
      obtain c2 w2 where rm: "remove_client i c1 w1 = (c2, w2)" by (cases "remove_client i c1 w1")
      note re = remove_client_effect [OF rm]
      have i2: "pool_inv c2" using remove_client_inv [OF rm i1] True fr by simp
      have f2: "fresh_accepts c2 w2" using f1 re by (simp add: fresh_accepts_def)
      from r True pc neg rm obtain c3 w3 where n3: "ctl_process K n c2 w2 = Some (Inr (c3, w3))"
        and s3: "ctl_process_scan K n (Suc i) c3 w3 = Some (Inr (c', w'))"
        by (auto split: option.splits sum.splits)
      note p3 = P [OF n3 i2 f2]
      from p3 have q3: "pool_inv c' \<and> fresh_accepts c' w' \<and> server_fd c' = server_fd c3
             \<and> (\<exists>t. trace w' = trace w3 @ t)"
        using Q [OF s3] by simp
      show ?thesis using q3 p3 re fr by auto
    qed
  qed
  show ?case using p q by blast
qed

subsection \<open>Teardown\<close>

lemma closing_order_step:
  assumes "m < length cs"
  shows "closing_order (map fd (take (Suc m) cs))
           = fd (cs ! 0) # closing_order (map fd (take m (if 0 \<noteq> m then cs[0 := cs ! m] else cs)))"
proof (cases m)
  case 0
  then show ?thesis
    using assms by (cases cs) (simp_all add: closing_order_def)
next
  case (Suc k)
  from assms obtain a rest where cs: "cs = a # rest" by (cases cs) auto
  have k: "k < length rest" using assms Suc cs by simp
  have "take (Suc k) rest = take k rest @ [rest ! k]"
    using k by (rule take_Suc_conv_app_nth)
  then show ?thesis
    using Suc cs by (simp add: closing_order_def)
qed

lemma remove_all_clients_effect:
  assumes "remove_all_clients c w = (c', w')" "num_clients c \<le> length (clients c)"
  shows "num_clients c' = 0 \<and> server_fd c' = server_fd c
       \<and> trace w' = trace w
            @ map ev_close (closing_order (map fd (take (num_clients c) (clients c))))
       \<and> sockname w' = sockname w \<and> close_fails w' = close_fails w
       \<and> unlink_fails w' = unlink_fails w"
  using assms
proof (induction "num_clients c" arbitrary: c w)
  case 0
  then show ?case by (simp add: closing_order_def)
next
  case (Suc m)
  obtain c1 w1 where rm: "remove_client 0 c w = (c1, w1)" by (cases "remove_client 0 c w")
  note re = remove_client_effect [OF rm]
  have n1: "m = num_clients c1" using re Suc.hyps(2) by simp
  have cs1: "clients c1 = (if 0 \<noteq> m then (clients c)[0 := clients c ! m] else clients c)"
    using rm Suc.hyps(2) [symmetric] by (auto simp add: remove_client_def Let_def)
  have ra: "remove_all_clients c1 w1 = (c', w')"
    using Suc.prems(1) Suc.hyps(2) [symmetric] rm by simp
  have le: "num_clients c1 \<le> length (clients c1)"
    using re Suc.hyps(2) Suc.prems(2) by simp
  note ih = Suc.hyps(1) [OF n1 ra le]
  have m: "m < length (clients c)" using Suc.hyps(2) Suc.prems(2) by simp
  have "closing_order (map fd (take (num_clients c) (clients c)))
          = fd (clients c ! 0) # closing_order (map fd (take (num_clients c1) (clients c1)))"
    using closing_order_step [OF m] cs1 n1 Suc.hyps(2) by simp
  then show ?case using ih re by simp
qed

lemma ctl_destroy_trace:
  assumes "num_clients c \<le> length (clients c)"
  shows "trace (ctl_destroy (Some c) owner w)
           = trace w
             @ map ev_close (closing_order (map fd (take (num_clients c) (clients c))))
             @ [ev_getsockname (server_fd c), ev_close (server_fd c)]
             @ (case sockname w (server_fd c) of
                  Inl e \<Rightarrow> []
                | Inr path \<Rightarrow> if owner then [ev_unlink path] else [])
             @ [ev_free]
       \<and> errno (ctl_destroy (Some c) owner w) = errno w"
proof -
  obtain c1 w1 where ra: "remove_all_clients c w = (c1, w1)" by (cases "remove_all_clients c w")
  note e = remove_all_clients_effect [OF ra assms]
  show ?thesis
    using ra e
    by (auto simp add: ctl_destroy_def sys_getsockname_def ut_close_def sys_unlink_def
          ut_free_def Let_def split: sum.splits)
qed

text \<open>
  C10. Destroying an absent endpoint changes nothing: the environment, with its trace of
  calls and its error number, is returned as it was.
\<close>

theorem ctl_destroy_null: "ctl_destroy None owner w = w"
  by (simp add: ctl_destroy_def)

text \<open>
  An owner whose \<^verbatim>\<open>getsockname\<close> fails closes its three descriptors and frees the
  endpoint, but unlinks nothing.
\<close>

theorem ctl_destroy_owner_without_path:
  "trace (ctl_destroy (Some ex_ctl2) True ex_world_no_sockname)
     = [ev_close 5, ev_close 6, ev_getsockname 3, ev_close 3, ev_free]"
  using ctl_destroy_trace [of ex_ctl2 True ex_world_no_sockname]
  by (simp add: ex_defs closing_order_def)

text \<open>
  C9, as the code has it. Destroying an endpoint closes every client in use, whatever its
  state, asks for the listening descriptor's bound path, closes the listening descriptor,
  unlinks the path when the instance is the owner and the path was obtained, frees the
  endpoint, and leaves the error number as it was on entry.
\<close>

theorem ctl_destroy_effect:
  assumes "num_clients c \<le> length (clients c)"
  shows "trace (ctl_destroy (Some c) owner w)
           = trace w
             @ map ev_close (closing_order (map fd (take (num_clients c) (clients c))))
             @ [ev_getsockname (server_fd c), ev_close (server_fd c)]
             @ (case sockname w (server_fd c) of
                  Inl e \<Rightarrow> []
                | Inr path \<Rightarrow> if owner then [ev_unlink path] else [])
             @ [ev_free]
       \<and> errno (ctl_destroy (Some c) owner w) = errno w"
  using assms by (rule ctl_destroy_trace)

theorem ctl_destroy_effect_witness:
  "trace (ctl_destroy (Some ex_ctl2) True ex_world)
     = [ev_close 5, ev_close 6, ev_getsockname 3, ev_close 3, ev_unlink ''/run/xcm/ctl/ctl-1-0'',
        ev_free]
   \<and> trace (ctl_destroy (Some ex_ctl2) False ex_world)
     = [ev_close 5, ev_close 6, ev_getsockname 3, ev_close 3, ev_free]
   \<and> errno (ctl_destroy (Some ex_ctl2) True
               (ex_world\<lparr>errno := 32, close_fails := (\<lambda>fd. Some 9)\<rparr>)) = 32"
  using ctl_destroy_effect [of ex_ctl2 True ex_world]
        ctl_destroy_effect [of ex_ctl2 False ex_world]
        ctl_destroy_effect [of ex_ctl2 True "ex_world\<lparr>errno := 32, close_fails := (\<lambda>fd. Some 9)\<rparr>"]
  by (simp add: ex_defs closing_order_def)

subsection \<open>Removal after a failed step\<close>

lemma accept_client_trace: "accept_client c w = (c', w') \<Longrightarrow> trace w' = trace w"
  by (auto simp add: accept_client_def ut_is_readable_def ut_accept_def Let_def
           split: if_splits list.splits prod.splits)

lemma ctl_process_trace_grows_aux:
  "(\<forall>c w c' w'. ctl_process K n c w = Some (Inr (c', w')) \<longrightarrow> (\<exists>t. trace w' = trace w @ t))
   \<and> (\<forall>i c w c' w'. ctl_process_scan K n i c w = Some (Inr (c', w'))
         \<longrightarrow> (\<exists>t. trace w' = trace w @ t))"
proof (induction n)
  case 0
  show ?case by simp
next
  case (Suc n)
  note P = Suc.IH [THEN conjunct1, rule_format]
  note Q = Suc.IH [THEN conjunct2, rule_format]
  have p: "\<exists>t. trace w' = trace w @ t"
    if r: "ctl_process K (Suc n) c w = Some (Inr (c', w'))" for c w c' w'
  proof -
    from r obtain c1 w1 where s: "ctl_process_scan K n 0 c w = Some (Inr (c1, w1))"
      by (auto split: option.splits sum.splits)
    obtain c2 w2 where a: "accept_client c1 w1 = (c2, w2)" by (cases "accept_client c1 w1")
    from r s a have "trace w' = trace w1"
      using accept_client_trace [OF a] by (auto split: if_splits)
    then show ?thesis using Q [OF s] by simp
  qed
  have q: "\<exists>t. trace w' = trace w @ t"
    if r: "ctl_process_scan K (Suc n) i c w = Some (Inr (c', w'))" for i c w c' w'
  proof (cases "i < num_clients c")
    case False
    with r show ?thesis by simp
  next
    case True
    from r True obtain rc c1 w1 where pc: "process_client K i c w = Inr (rc, c1, w1)"
      by (auto split: sum.splits)
    from process_client_frame [OF pc] obtain t1 where t1: "trace w1 = trace w @ t1" by auto
    show ?thesis
    proof (cases "rc < 0")
      case False
      with r True pc have "ctl_process_scan K n (Suc i) c1 w1 = Some (Inr (c', w'))" by simp
      from Q [OF this] t1 show ?thesis by auto
    next
      case neg: True
      obtain c2 w2 where rm: "remove_client i c1 w1 = (c2, w2)" by (cases "remove_client i c1 w1")
      from r True pc neg rm obtain c3 w3 where n3: "ctl_process K n c2 w2 = Some (Inr (c3, w3))"
        and s3: "ctl_process_scan K n (Suc i) c3 w3 = Some (Inr (c', w'))"
        by (auto split: option.splits sum.splits)
      from P [OF n3] Q [OF s3] remove_client_effect [OF rm] t1 show ?thesis by auto
    qed
  qed
  show ?case using p q by blast
qed

text \<open>
  When the step of the client in slot \<open>i\<close> reports a failure, the loop removes that
  client at once: whatever follows, the first thing the outside sees is the close of its
  descriptor.
\<close>

lemma ctl_process_scan_removes:
  assumes r: "ctl_process_scan K n i c w = Some (Inr (c', w'))"
      and i: "i < num_clients c"
      and pc: "process_client K i c w = Inr (rc, c1, w1)"
      and neg: "rc < 0"
  shows "\<exists>t. trace w' = trace w @ ev_close (fd (clients c ! i)) # t"
proof (cases n)
  case 0
  with r show ?thesis by simp
next
  case (Suc m)
  obtain c2 w2 where rm: "remove_client i c1 w1 = (c2, w2)" by (cases "remove_client i c1 w1")
  from r Suc i pc neg rm obtain c3 w3 where n3: "ctl_process K m c2 w2 = Some (Inr (c3, w3))"
    and s3: "ctl_process_scan K m (Suc i) c3 w3 = Some (Inr (c', w'))"
    by (auto split: option.splits sum.splits)
  note g = ctl_process_trace_grows_aux [of K m]
  from g n3 obtain t3 where t3: "trace w3 = trace w2 @ t3" by blast
  from g s3 obtain t4 where t4: "trace w' = trace w3 @ t4" by blast
  note f = process_client_frame [OF pc]
  have same: "trace w1 = trace w" using f neg by simp
  have fds: "fd (clients c1 ! i) = fd (clients c ! i)"
  proof (cases "i < length (clients c)")
    case True
    have "map fd (clients c1) ! i = map fd (clients c) ! i" using f by simp
    moreover have "length (clients c1) = length (clients c)" using f by (metis length_map)
    ultimately show ?thesis using True by simp
  next
    case False
    have "length (clients c1) = length (clients c)" using f by (metis length_map)
    then show ?thesis using False pc
      by (auto simp add: process_client_def Let_def list_update_beyond
               split: if_splits prod.splits sum.splits ctl_proto_type.splits)
  qed
  from remove_client_effect [OF rm] have "trace w2 = trace w1 @ [ev_close (fd (clients c1 ! i))]"
    by simp
  with t3 t4 same fds show ?thesis by simp
qed

text \<open>
  C7. The step of a client that awaits a request, by what \<^verbatim>\<open>recv\<close> returns. Nothing to
  read (\<^verbatim>\<open>EAGAIN\<close>): the step returns 0 and the endpoint is as before. A zero-byte read,
  an error other than \<^verbatim>\<open>EAGAIN\<close>, a read of another size than a message, and a whole
  message with a tag that is not a request: the step returns -1 without having sent
  anything and with no response pending, and the loop that ran the step closes the
  client's descriptor before anything else happens.
\<close>

theorem awaiting_request_receive_cases:
  assumes idle: "\<not> is_response_pending (clients c ! i)"
  shows "(recv_in w (fd (clients c ! i)) = [] \<longrightarrow> process_client K i c w = Inr (0, c, w))
       \<and> (\<forall>r rs. recv_in w (fd (clients c ! i)) = r # rs \<and> recv_rc r < 0 \<and> recv_errno r = EAGAIN
             \<longrightarrow> (\<exists>w'. process_client K i c w = Inr (0, c, w')
                       \<and> trace w' = trace w \<and> errno w' = errno w))
       \<and> (\<forall>r rs. recv_in w (fd (clients c ! i)) = r # rs
                \<and> (recv_rc r = 0
                    \<or> recv_rc r < 0 \<and> recv_errno r \<noteq> EAGAIN
                    \<or> 0 < recv_rc r \<and> recv_rc r \<noteq> int (sizeof_ctl_proto_msg K)
                    \<or> recv_rc r = int (sizeof_ctl_proto_msg K)
                       \<and> type (recv_msg r) \<noteq> ctl_proto_type_get_attr_req
                       \<and> type (recv_msg r) \<noteq> ctl_proto_type_get_all_attr_req)
             \<longrightarrow> (\<exists>c1 w1. process_client K i c w = Inr (- 1, c1, w1)
                       \<and> trace w1 = trace w
                       \<and> \<not> is_response_pending (clients c1 ! i)
                       \<and> (\<forall>n c' w'. i < num_clients c
                              \<and> ctl_process_scan K n i c w = Some (Inr (c', w'))
                            \<longrightarrow> (\<exists>t. trace w' = trace w @ ev_close (fd (clients c ! i)) # t))))"
proof (intro conjI allI impI)
  assume "recv_in w (fd (clients c ! i)) = []"
  then show "process_client K i c w = Inr (0, c, w)"
    using idle by (rule process_client_would_block [rotated])
next
  fix r rs
  assume "recv_in w (fd (clients c ! i)) = r # rs \<and> recv_rc r < 0 \<and> recv_errno r = EAGAIN"
  then show "\<exists>w'. process_client K i c w = Inr (0, c, w') \<and> trace w' = trace w \<and> errno w' = errno w"
    using process_client_recv_fails [OF idle, of w r rs K] by simp
next
  fix r rs
  assume a: "recv_in w (fd (clients c ! i)) = r # rs
                \<and> (recv_rc r = 0
                    \<or> recv_rc r < 0 \<and> recv_errno r \<noteq> EAGAIN
                    \<or> 0 < recv_rc r \<and> recv_rc r \<noteq> int (sizeof_ctl_proto_msg K)
                    \<or> recv_rc r = int (sizeof_ctl_proto_msg K)
                       \<and> type (recv_msg r) \<noteq> ctl_proto_type_get_attr_req
                       \<and> type (recv_msg r) \<noteq> ctl_proto_type_get_all_attr_req)"
  then have rx: "recv_in w (fd (clients c ! i)) = r # rs" by simp
  have "\<exists>c1 w1. process_client K i c w = Inr (- 1, c1, w1) \<and> trace w1 = trace w
                  \<and> \<not> is_response_pending (clients c1 ! i)"
  proof -
    consider (err) "recv_rc r < 0" "recv_errno r \<noteq> EAGAIN"
      | (short) "0 \<le> recv_rc r" "recv_rc r = 0 \<or> recv_rc r \<noteq> int (sizeof_ctl_proto_msg K)"
      | (tag) "recv_rc r = int (sizeof_ctl_proto_msg K)"
          "type (recv_msg r) \<noteq> ctl_proto_type_get_attr_req"
          "type (recv_msg r) \<noteq> ctl_proto_type_get_all_attr_req"
      using a by fastforce
    then show ?thesis
    proof cases
      case err
      then show ?thesis using process_client_recv_fails [OF idle rx, of K] idle by simp
    next
      case short
      then show ?thesis using process_client_recv_short [OF idle rx, of K] idle by simp
    next
      case tag
      show ?thesis
        unfolding process_client_unknown_tag [OF idle rx tag]
        using idle by (cases "i < length (clients c)") (simp_all add: list_update_beyond)
    qed
  qed
  then obtain c1 w1 where pc: "process_client K i c w = Inr (- 1, c1, w1)"
    and rest: "trace w1 = trace w" "\<not> is_response_pending (clients c1 ! i)" by blast
  have "\<exists>t. trace w' = trace w @ ev_close (fd (clients c ! i)) # t"
    if "i < num_clients c \<and> ctl_process_scan K n i c w = Some (Inr (c', w'))" for n c' w'
    using ctl_process_scan_removes [of K n i c w c' w' "- 1" c1 w1] that pc by simp
  with pc rest
  show "\<exists>c1 w1. process_client K i c w = Inr (- 1, c1, w1) \<and> trace w1 = trace w
           \<and> \<not> is_response_pending (clients c1 ! i)
           \<and> (\<forall>n c' w'. i < num_clients c \<and> ctl_process_scan K n i c w = Some (Inr (c', w'))
                 \<longrightarrow> (\<exists>t. trace w' = trace w @ ev_close (fd (clients c ! i)) # t))"
    by blast
qed

lemmas step_defs = process_client_def sys_recv_def sys_send_def remove_client_def
  accept_client_def ut_close_def ut_is_readable_def ut_accept_def epoll_reg_set_add_def
  epoll_reg_set_mod_def epoll_reg_set_del_def MAX_CLIENTS_def EAGAIN_def Let_def

theorem awaiting_request_receive_cases_witness:
  "process_client ex_limits 0 ex_ctl1 ex_world = Inr (0, ex_ctl1, ex_world)
   \<and> (\<exists>c1 w1. process_client ex_limits 0 ex_ctl1 (ex_world_recv 5 [ex_recv 0 0 ctl_proto_type_get_attr_req])
                 = Inr (- 1, c1, w1) \<and> trace w1 = [])
   \<and> (\<exists>c1 w1. process_client ex_limits 0 ex_ctl1 (ex_world_recv 5 [ex_recv (- 1) 104 ctl_proto_type_get_attr_req])
                 = Inr (- 1, c1, w1) \<and> trace w1 = [])
   \<and> (\<exists>c1 w1. process_client ex_limits 0 ex_ctl1 (ex_world_recv 5 [ex_recv 12 0 ctl_proto_type_get_attr_req])
                 = Inr (- 1, c1, w1) \<and> trace w1 = [])
   \<and> (\<exists>c1 w1. process_client ex_limits 0 ex_ctl1 (ex_world_recv 5 [ex_recv 64 0 (ctl_proto_type_other 99)])
                 = Inr (- 1, c1, w1) \<and> trace w1 = [] \<and> \<not> is_response_pending (clients c1 ! 0))
   \<and> (\<exists>c' w' t. ctl_process_scan ex_limits (Suc (Suc (Suc 0))) 0 ex_ctl1
                    (ex_world_recv 5 [ex_recv 64 0 (ctl_proto_type_other 99)]) = Some (Inr (c', w'))
                 \<and> trace w' = ev_close 5 # t)"
proof -
  have idle: "\<not> is_response_pending (clients ex_ctl1 ! 0)" by (simp add: ex_defs)
  note t = awaiting_request_receive_cases [OF idle]
  have a: "process_client ex_limits 0 ex_ctl1 ex_world = Inr (0, ex_ctl1, ex_world)"
    using t [of ex_world ex_limits] by (simp add: ex_defs)
  have b: "\<exists>c1 w1. process_client ex_limits 0 ex_ctl1 (ex_world_recv 5 [ex_recv 0 0 ctl_proto_type_get_attr_req])
                 = Inr (- 1, c1, w1) \<and> trace w1 = []"
    using t [of "ex_world_recv 5 [ex_recv 0 0 ctl_proto_type_get_attr_req]" ex_limits]
    by (fastforce simp add: ex_defs)
  have c: "\<exists>c1 w1. process_client ex_limits 0 ex_ctl1 (ex_world_recv 5 [ex_recv (- 1) 104 ctl_proto_type_get_attr_req])
                 = Inr (- 1, c1, w1) \<and> trace w1 = []"
    using t [of "ex_world_recv 5 [ex_recv (- 1) 104 ctl_proto_type_get_attr_req]" ex_limits]
    by (fastforce simp add: ex_defs EAGAIN_def)
  have d: "\<exists>c1 w1. process_client ex_limits 0 ex_ctl1 (ex_world_recv 5 [ex_recv 12 0 ctl_proto_type_get_attr_req])
                 = Inr (- 1, c1, w1) \<and> trace w1 = []"
    using t [of "ex_world_recv 5 [ex_recv 12 0 ctl_proto_type_get_attr_req]" ex_limits]
    by (fastforce simp add: ex_defs)
  let ?w = "ex_world_recv 5 [ex_recv 64 0 (ctl_proto_type_other 99)]"
  from t [of ?w ex_limits]
  obtain c1 w1 where e1: "process_client ex_limits 0 ex_ctl1 ?w = Inr (- 1, c1, w1)"
    and e2: "trace w1 = trace ?w" and e3: "\<not> is_response_pending (clients c1 ! 0)"
    and e4: "\<forall>n c' w'. 0 < num_clients ex_ctl1
                \<and> ctl_process_scan ex_limits n 0 ex_ctl1 ?w = Some (Inr (c', w'))
              \<longrightarrow> (\<exists>t. trace w' = trace ?w @ ev_close (fd (clients ex_ctl1 ! 0)) # t)"
    by (auto simp add: ex_defs)
  have e: "\<exists>c1 w1. process_client ex_limits 0 ex_ctl1 ?w = Inr (- 1, c1, w1) \<and> trace w1 = []
             \<and> \<not> is_response_pending (clients c1 ! 0)"
    using e1 e2 e3 by (simp add: ex_defs)
  have "\<exists>c' w'. ctl_process_scan ex_limits (Suc (Suc (Suc 0))) 0 ex_ctl1 ?w = Some (Inr (c', w'))"
    by (simp add: step_defs ex_defs)
  then obtain c' w' where
    s: "ctl_process_scan ex_limits (Suc (Suc (Suc 0))) 0 ex_ctl1 ?w = Some (Inr (c', w'))"
    by blast
  have n1: "0 < num_clients ex_ctl1" and fd0: "fd (clients ex_ctl1 ! 0) = 5"
    and tr: "trace ?w = []"
    by (simp_all add: ex_defs)
  have "\<exists>t. trace w' = trace ?w @ ev_close (fd (clients ex_ctl1 ! 0)) # t"
    using e4 s n1 by blast
  then have "\<exists>t. trace w' = ev_close 5 # t"
    unfolding fd0 tr by simp
  then have f: "\<exists>c' w' t. ctl_process_scan ex_limits (Suc (Suc (Suc 0))) 0 ex_ctl1 ?w
                   = Some (Inr (c', w')) \<and> trace w' = ev_close 5 # t"
    using s by blast
  show ?thesis using a b c d e f by blast
qed

lemma process_client_own_descriptor:
  assumes "process_client K j c w = Inr (rc, c', w')" "d \<noteq> fd (clients c ! j)"
  shows "recv_in w' d = recv_in w d \<and> send_in w' d = send_in w d"
proof (cases "is_response_pending (clients c ! j)")
  case True
  show ?thesis
    using assms unfolding process_client_pending [OF True]
    by (auto split: list.splits if_splits)
next
  case False
  show ?thesis
    using assms False
    by (auto simp add: process_client_def sys_recv_def Let_def
             split: list.splits if_splits ctl_proto_type.splits sum.splits)
qed

text \<open>
  C8. While a client's response is pending its step only tries to send: whatever the
  outcome, nothing is read from any descriptor. A send that would block returns 0 and
  leaves the endpoint, with the flag and the pending response, as it was; the flag is
  cleared only by the step that hands the pending response to the transport. The step of
  a client with another descriptor reads nothing from this client's descriptor and leaves
  its flag and its pending response alone.
\<close>

theorem response_pending_blocks_reading:
  assumes pend: "is_response_pending (clients c ! i)" and slot: "i < length (clients c)"
  shows "(\<exists>rc c' w'. process_client K i c w = Inr (rc, c', w')
           \<and> recv_in w' = recv_in w
           \<and> (\<forall>r rs. send_in w (fd (clients c ! i)) = r # rs \<and> send_rc r < 0
                       \<and> send_errno r = EAGAIN
                \<longrightarrow> rc = 0 \<and> c' = c \<and> trace w' = trace w)
           \<and> (if is_response_pending (clients c' ! i)
               then pending_response (clients c' ! i) = pending_response (clients c ! i)
                    \<and> trace w' = trace w
               else rc = 0
                    \<and> trace w' = trace w
                         @ [ev_send (fd (clients c ! i)) (pending_response (clients c ! i))]))
       \<and> (\<forall>j rc c' w'. process_client K j c w = Inr (rc, c', w')
                \<and> fd (clients c ! j) \<noteq> fd (clients c ! i)
             \<longrightarrow> recv_in w' (fd (clients c ! i)) = recv_in w (fd (clients c ! i))
                 \<and> is_response_pending (clients c' ! i)
                 \<and> pending_response (clients c' ! i) = pending_response (clients c ! i))"
proof
  show "\<exists>rc c' w'. process_client K i c w = Inr (rc, c', w')
           \<and> recv_in w' = recv_in w
           \<and> (\<forall>r rs. send_in w (fd (clients c ! i)) = r # rs \<and> send_rc r < 0
                       \<and> send_errno r = EAGAIN
                \<longrightarrow> rc = 0 \<and> c' = c \<and> trace w' = trace w)
           \<and> (if is_response_pending (clients c' ! i)
               then pending_response (clients c' ! i) = pending_response (clients c ! i)
                    \<and> trace w' = trace w
               else rc = 0
                    \<and> trace w' = trace w
                         @ [ev_send (fd (clients c ! i)) (pending_response (clients c ! i))])"
  proof (cases "send_in w (fd (clients c ! i))")
    case Nil
    show ?thesis
      unfolding process_client_pending [OF pend]
      using Nil slot pend by simp
  next
    case (Cons r rs)
    show ?thesis
      unfolding process_client_pending [OF pend]
      using Cons slot pend by (cases "send_rc r < 0") simp_all
  qed
next
  show "\<forall>j rc c' w'. process_client K j c w = Inr (rc, c', w')
                \<and> fd (clients c ! j) \<noteq> fd (clients c ! i)
             \<longrightarrow> recv_in w' (fd (clients c ! i)) = recv_in w (fd (clients c ! i))
                 \<and> is_response_pending (clients c' ! i)
                 \<and> pending_response (clients c' ! i) = pending_response (clients c ! i)"
  proof (intro allI impI)
    fix j rc c' w'
    assume a: "process_client K j c w = Inr (rc, c', w')
                \<and> fd (clients c ! j) \<noteq> fd (clients c ! i)"
    then have ne: "j \<noteq> i" by auto
    have same: "clients c' ! i = clients c ! i"
    proof (cases "is_response_pending (clients c ! j)")
      case True
      show ?thesis
        using a ne unfolding process_client_pending [OF True]
        by (auto split: list.splits if_splits)
    next
      case False
      show ?thesis
        using a ne False
        by (auto simp add: process_client_def sys_recv_def Let_def
                 split: list.splits if_splits ctl_proto_type.splits sum.splits)
    qed
    from a process_client_own_descriptor [of K j c w rc c' w' "fd (clients c ! i)"] same pend
    show "recv_in w' (fd (clients c ! i)) = recv_in w (fd (clients c ! i))
                 \<and> is_response_pending (clients c' ! i)
                 \<and> pending_response (clients c' ! i) = pending_response (clients c ! i)"
      by auto
  qed
qed


theorem response_pending_blocks_reading_witness:
  "(\<exists>w'. process_client ex_limits 0 ex_ctl1_pending
             (ex_world\<lparr>recv_in := (\<lambda>fd. if fd = 5 then [ex_get_attr_req ''xcm.type''] else []),
                       send_in := (\<lambda>fd. if fd = 5 then [\<lparr>send_rc = - 1, send_errno = 11\<rparr>] else [])\<rparr>)
           = Inr (0, ex_ctl1_pending, w')
         \<and> recv_in w' 5 = [ex_get_attr_req ''xcm.type''] \<and> trace w' = [])
   \<and> (\<exists>c' w'. process_client ex_limits 0 ex_ctl1_pending
             (ex_world\<lparr>recv_in := (\<lambda>fd. if fd = 5 then [ex_get_attr_req ''xcm.type''] else [])\<rparr>)
           = Inr (0, c', w')
         \<and> recv_in w' 5 = [ex_get_attr_req ''xcm.type'']
         \<and> \<not> is_response_pending (clients c' ! 0)
         \<and> trace w' = [ev_send 5 (zero_msg ex_limits)])
   \<and> (\<exists>c' w'. process_client ex_limits 1 ex_ctl2_pending ex_world_requests = Inr (0, c', w')
         \<and> recv_in w' 6 = []
         \<and> recv_in w' 5 = [ex_get_attr_req ''xcm.type'']
         \<and> is_response_pending (clients c' ! 0))"
proof -
  have p1: "is_response_pending (clients ex_ctl1_pending ! 0)"
    and s1: "0 < length (clients ex_ctl1_pending)"
    and p2: "is_response_pending (clients ex_ctl2_pending ! 0)"
    and s2: "0 < length (clients ex_ctl2_pending)"
    by (simp_all add: ex_defs)
  note blocked = response_pending_blocks_reading [OF p1 s1, THEN conjunct1]
  note others = response_pending_blocks_reading [OF p2 s2, THEN conjunct2, rule_format]
  have a: "\<exists>w'. process_client ex_limits 0 ex_ctl1_pending
             (ex_world\<lparr>recv_in := (\<lambda>fd. if fd = 5 then [ex_get_attr_req ''xcm.type''] else []),
                       send_in := (\<lambda>fd. if fd = 5 then [\<lparr>send_rc = - 1, send_errno = 11\<rparr>] else [])\<rparr>)
           = Inr (0, ex_ctl1_pending, w')
         \<and> recv_in w' 5 = [ex_get_attr_req ''xcm.type''] \<and> trace w' = []"
    using blocked [of ex_limits
        "ex_world\<lparr>recv_in := (\<lambda>fd. if fd = 5 then [ex_get_attr_req ''xcm.type''] else []),
                  send_in := (\<lambda>fd. if fd = 5 then [\<lparr>send_rc = - 1, send_errno = 11\<rparr>] else [])\<rparr>"]
    by (simp add: step_defs ex_defs)
  have b: "\<exists>c' w'. process_client ex_limits 0 ex_ctl1_pending
             (ex_world\<lparr>recv_in := (\<lambda>fd. if fd = 5 then [ex_get_attr_req ''xcm.type''] else [])\<rparr>)
           = Inr (0, c', w')
         \<and> recv_in w' 5 = [ex_get_attr_req ''xcm.type'']
         \<and> \<not> is_response_pending (clients c' ! 0)
         \<and> trace w' = [ev_send 5 (zero_msg ex_limits)]"
    using blocked [of ex_limits
        "ex_world\<lparr>recv_in := (\<lambda>fd. if fd = 5 then [ex_get_attr_req ''xcm.type''] else [])\<rparr>"]
    by (simp add: step_defs ex_defs)
  have "\<exists>c' w'. process_client ex_limits 1 ex_ctl2_pending ex_world_requests = Inr (0, c', w')
          \<and> recv_in w' 6 = []"
    by (simp add: step_defs ex_defs)
  then obtain c' w' where
    pc: "process_client ex_limits 1 ex_ctl2_pending ex_world_requests = Inr (0, c', w')"
    and r6: "recv_in w' 6 = []" by blast
  have ne: "fd (clients ex_ctl2_pending ! 1) \<noteq> fd (clients ex_ctl2_pending ! 0)"
    by (simp add: ex_defs)
  have f0: "fd (clients ex_ctl2_pending ! 0) = 5"
    and r5: "recv_in ex_world_requests 5 = [ex_get_attr_req ''xcm.type'']"
    by (simp_all add: ex_defs)
  from others [of ex_limits 1 ex_world_requests 0 c' w'] pc ne
  have "recv_in w' (fd (clients ex_ctl2_pending ! 0))
          = recv_in ex_world_requests (fd (clients ex_ctl2_pending ! 0))
        \<and> is_response_pending (clients c' ! 0)"
    by blast
  then have "recv_in w' 5 = [ex_get_attr_req ''xcm.type''] \<and> is_response_pending (clients c' ! 0)"
    unfolding f0 r5 .
  with pc r6 have c: "\<exists>c' w'. process_client ex_limits 1 ex_ctl2_pending ex_world_requests
           = Inr (0, c', w')
         \<and> recv_in w' 6 = []
         \<and> recv_in w' 5 = [ex_get_attr_req ''xcm.type'']
         \<and> is_response_pending (clients c' ! 0)"
    by blast
  show ?thesis using a b c by blast
qed

subsection \<open>The listening descriptor\<close>

lemma ctl_process_trace_grows:
  "ctl_process K n c w = Some (Inr (c', w')) \<Longrightarrow> \<exists>t. trace w' = trace w @ t"
  "ctl_process_scan K n i c w = Some (Inr (c', w')) \<Longrightarrow> \<exists>t. trace w' = trace w @ t"
  using ctl_process_trace_grows_aux [of K n] by blast+

text \<open>A loop that closes no descriptor removes no client and accepts none.\<close>

lemma scan_without_close:
  assumes "ctl_process_scan K n i c w = Some (Inr (c', w'))"
      and "trace w' = trace w @ t" "\<forall>d. ev_close d \<notin> set t"
  shows "accept_in w' = accept_in w \<and> num_clients c' = num_clients c"
  using assms
proof (induction n arbitrary: i c w t)
  case 0
  then show ?case by simp
next
  case (Suc n)
  show ?case
  proof (cases "i < num_clients c")
    case False
    with Suc.prems(1) show ?thesis by simp
  next
    case True
    from Suc.prems(1) True obtain rc c1 w1 where pc: "process_client K i c w = Inr (rc, c1, w1)"
      by (auto split: sum.splits)
    note f = process_client_frame [OF pc]
    have nonneg: "\<not> rc < 0"
    proof
      assume "rc < 0"
      from ctl_process_scan_removes [OF Suc.prems(1) True pc this]
      obtain t' where "trace w' = trace w @ ev_close (fd (clients c ! i)) # t'" by blast
      with Suc.prems(2) have "t = ev_close (fd (clients c ! i)) # t'" by simp
      with Suc.prems(3) show False by auto
    qed
    with Suc.prems(1) True pc
    have s: "ctl_process_scan K n (Suc i) c1 w1 = Some (Inr (c', w'))" by simp
    from f obtain t1 where t1: "trace w1 = trace w @ t1" by blast
    from ctl_process_trace_grows(2) [OF s] obtain t2 where t2: "trace w' = trace w1 @ t2" by blast
    from t1 t2 Suc.prems(2) have "t = t1 @ t2" by simp
    with Suc.prems(3) have "\<forall>d. ev_close d \<notin> set t2" by simp
    from Suc.IH [OF s t2 this] f show ?thesis by simp
  qed
qed

lemma ctl_process_full_without_close:
  assumes r: "ctl_process K n c w = Some (Inr (c', w'))"
      and full: "num_clients c = MAX_CLIENTS"
      and t: "trace w' = trace w @ t" "\<forall>d. ev_close d \<notin> set t"
  shows "accept_in w' = accept_in w \<and> num_clients c' = MAX_CLIENTS"
proof (cases n)
  case 0
  with r show ?thesis by simp
next
  case (Suc m)
  from r Suc obtain c1 w1 where s: "ctl_process_scan K m 0 c w = Some (Inr (c1, w1))"
    by (auto split: option.splits sum.splits)
  obtain c2 w2 where a: "accept_client c1 w1 = (c2, w2)" by (cases "accept_client c1 w1")
  have "trace w' = trace w1"
    using r Suc s a accept_client_trace [OF a] by (auto split: if_splits)
  with t have "trace w1 = trace w @ t" by simp
  from scan_without_close [OF s this t(2)]
  have k: "accept_in w1 = accept_in w" "num_clients c1 = num_clients c" by simp_all
  with r Suc s full show ?thesis by auto
qed

lemma reachable_pool_inv: "reachable K c \<Longrightarrow> pool_inv c"
proof (induction rule: reachable.induct)
  case (created s r c)
  then show ?case by (simp add: ctl_create_inv)
next
  case (processed c w n c' w')
  with ctl_process_keeps_aux [of K n] show ?case by blast
qed

text \<open>
  C5. In every reachable endpoint the listening descriptor is registered for reading
  exactly when the pool has a free slot, and the pool never holds more than two clients.
  From such an endpoint: an accept that fills the pool leaves the listening descriptor
  unregistered; a removal from a full pool registers it again; and a call of
  \<open>ctl_process\<close> on a full pool that closes no descriptor accepts no connection.
\<close>

theorem listener_registered_iff_spare_capacity:
  assumes "reachable K c"
  shows "((reg_set c (server_fd c) = Some EPOLLIN) = (num_clients c < MAX_CLIENTS))
       \<and> num_clients c \<le> MAX_CLIENTS
       \<and> (\<forall>w c' w'. fresh_accepts c w \<and> num_clients c < MAX_CLIENTS
                  \<and> accept_client c w = (c', w') \<and> num_clients c' = MAX_CLIENTS
              \<longrightarrow> reg_set c' (server_fd c') = None)
       \<and> (\<forall>i w c' w'. num_clients c = MAX_CLIENTS \<and> i < num_clients c
                  \<and> remove_client i c w = (c', w')
              \<longrightarrow> reg_set c' (server_fd c') = Some EPOLLIN \<and> num_clients c' < MAX_CLIENTS)
       \<and> (\<forall>n w c' w' t. num_clients c = MAX_CLIENTS
                  \<and> ctl_process K n c w = Some (Inr (c', w'))
                  \<and> trace w' = trace w @ t \<and> (\<forall>d. ev_close d \<notin> set t)
              \<longrightarrow> accept_in w' = accept_in w \<and> num_clients c' = MAX_CLIENTS)"
proof -
  note inv = reachable_pool_inv [OF assms]
  have a: "reg_set c' (server_fd c') = None"
    if "fresh_accepts c w \<and> num_clients c < MAX_CLIENTS
          \<and> accept_client c w = (c', w') \<and> num_clients c' = MAX_CLIENTS" for w c' w'
    using that
    by (auto simp add: accept_client_def ut_is_readable_def ut_accept_def Let_def
          fresh_accepts_def epoll_reg_set_add_def epoll_reg_set_del_def
          split: if_splits list.splits)
  have b: "reg_set c' (server_fd c') = Some EPOLLIN \<and> num_clients c' < MAX_CLIENTS"
    if "num_clients c = MAX_CLIENTS \<and> i < num_clients c \<and> remove_client i c w = (c', w')"
    for i w c' w'
    using that
    by (auto simp add: remove_client_def Let_def epoll_reg_set_add_def MAX_CLIENTS_def)
  have c: "accept_in w' = accept_in w \<and> num_clients c' = MAX_CLIENTS"
    if "num_clients c = MAX_CLIENTS \<and> ctl_process K n c w = Some (Inr (c', w'))
          \<and> trace w' = trace w @ t \<and> (\<forall>d. ev_close d \<notin> set t)" for n w c' w' t
    using that ctl_process_full_without_close [of K n c w c' w' t] by blast
  show ?thesis
    using inv a b c unfolding pool_inv_def by blast
qed

lemma ex_reg_set_full:
  "([3 \<mapsto> EPOLLIN, 5 \<mapsto> EPOLLIN, 6 \<mapsto> EPOLLIN])(3 := None)
     = ([5 \<mapsto> EPOLLIN, 6 \<mapsto> EPOLLIN] :: epoll_reg_set)"
  by (rule ext) simp

lemma ex_reachable:
  "reachable ex_limits ex_ctl0" "reachable ex_limits ex_ctl1" "reachable ex_limits ex_ctl2"
proof -
  have "ctl_create ex_limits ex_socket 3 = Some ex_ctl0"
    by (simp add: ctl_create_def ex_defs epoll_reg_set_add_def MAX_CLIENTS_def eval_nat_numeral)
  then show r0: "reachable ex_limits ex_ctl0" by (rule reachable.created)
  have f0: "fresh_accepts ex_ctl0 (ex_world_accept [5])"
    by (simp add: fresh_accepts_def ex_defs)
  have "ctl_process ex_limits (Suc (Suc 0)) ex_ctl0 (ex_world_accept [5])
          = Some (Inr (ex_ctl1, ex_world))"
    by (simp add: step_defs ex_defs)
  with r0 f0 show r1: "reachable ex_limits ex_ctl1" by (rule reachable.processed)
  have f1: "fresh_accepts ex_ctl1 (ex_world_accept [6])"
    by (simp add: fresh_accepts_def ex_defs)
  have "ctl_process ex_limits (Suc (Suc (Suc 0))) ex_ctl1 (ex_world_accept [6])
          = Some (Inr (ex_ctl2, ex_world))"
    by (simp add: step_defs ex_defs ex_reg_set_full)
  with r1 f1 show "reachable ex_limits ex_ctl2" by (rule reachable.processed)
qed

theorem listener_registered_iff_spare_capacity_witness:
  "reachable ex_limits ex_ctl1 \<and> reachable ex_limits ex_ctl2
   \<and> num_clients ex_ctl1 = 1 \<and> reg_set ex_ctl1 (server_fd ex_ctl1) = Some EPOLLIN
   \<and> num_clients ex_ctl2 = 2 \<and> reg_set ex_ctl2 (server_fd ex_ctl2) \<noteq> Some EPOLLIN
   \<and> accept_client ex_ctl1 (ex_world_accept [6]) = (ex_ctl2, ex_world)
   \<and> reg_set ex_ctl2 (server_fd ex_ctl2) = None
   \<and> (\<exists>c' w'. remove_client 0 ex_ctl2 ex_world = (c', w')
                 \<and> reg_set c' (server_fd c') = Some EPOLLIN \<and> num_clients c' < 2)
   \<and> (\<exists>c' w'. ctl_process ex_limits (Suc (Suc (Suc (Suc 0)))) ex_ctl2 (ex_world_accept [7])
                   = Some (Inr (c', w'))
                 \<and> accept_in w' = [ex_conn 7] \<and> num_clients c' = 2)"
proof -
  note t1 = listener_registered_iff_spare_capacity [OF ex_reachable(2)]
  note t2 = listener_registered_iff_spare_capacity [OF ex_reachable(3)]
  have n1: "num_clients ex_ctl1 = 1" and n2: "num_clients ex_ctl2 = 2"
    by (simp_all add: ex_defs)
  have a1: "reg_set ex_ctl1 (server_fd ex_ctl1) = Some EPOLLIN"
    using t1 n1 by (simp add: MAX_CLIENTS_def)
  have a2: "reg_set ex_ctl2 (server_fd ex_ctl2) \<noteq> Some EPOLLIN"
    using t2 n2 by (simp add: MAX_CLIENTS_def)
  have f1: "fresh_accepts ex_ctl1 (ex_world_accept [6])"
    by (simp add: fresh_accepts_def ex_defs)
  have acc: "accept_client ex_ctl1 (ex_world_accept [6]) = (ex_ctl2, ex_world)"
    by (simp add: step_defs ex_defs ex_reg_set_full)
  note fills = t1 [THEN conjunct2, THEN conjunct2, THEN conjunct1, rule_format]
  note frees = t2 [THEN conjunct2, THEN conjunct2, THEN conjunct2, THEN conjunct1, rule_format]
  note defers = t2 [THEN conjunct2, THEN conjunct2, THEN conjunct2, THEN conjunct2, rule_format]
  have a3: "reg_set ex_ctl2 (server_fd ex_ctl2) = None"
    using fills [of "ex_world_accept [6]" ex_ctl2 ex_world] f1 acc n1 n2
    by (simp add: MAX_CLIENTS_def)
  obtain c3 w3 where rm: "remove_client 0 ex_ctl2 ex_world = (c3, w3)"
    by (cases "remove_client 0 ex_ctl2 ex_world")
  have a4: "reg_set c3 (server_fd c3) = Some EPOLLIN \<and> num_clients c3 < 2"
    using frees [of 0 ex_world c3 w3] rm n2 by (simp add: MAX_CLIENTS_def)
  have "\<exists>c' w'. ctl_process ex_limits (Suc (Suc (Suc (Suc 0)))) ex_ctl2 (ex_world_accept [7])
                   = Some (Inr (c', w')) \<and> trace w' = []"
    by (simp add: step_defs ex_defs)
  then obtain c4 w4 where
    p: "ctl_process ex_limits (Suc (Suc (Suc (Suc 0)))) ex_ctl2 (ex_world_accept [7])
          = Some (Inr (c4, w4))" and tr: "trace w4 = []"
    by blast
  have tr': "trace w4 = trace (ex_world_accept [7]) @ []" using tr by (simp add: ex_defs)
  have full: "num_clients ex_ctl2 = MAX_CLIENTS" using n2 by (simp add: MAX_CLIENTS_def)
  have quiet: "\<forall>d. ev_close d \<notin> set []" by simp
  have "num_clients ex_ctl2 = MAX_CLIENTS
          \<and> ctl_process ex_limits (Suc (Suc (Suc (Suc 0)))) ex_ctl2 (ex_world_accept [7])
               = Some (Inr (c4, w4))
          \<and> trace w4 = trace (ex_world_accept [7]) @ [] \<and> (\<forall>d. ev_close d \<notin> set [])"
    using full p tr' quiet by blast
  from defers [OF this]
  have "accept_in w4 = accept_in (ex_world_accept [7]) \<and> num_clients c4 = MAX_CLIENTS" .
  then have a5: "accept_in w4 = [ex_conn 7] \<and> num_clients c4 = 2"
    by (simp add: ex_defs MAX_CLIENTS_def)
  show ?thesis
    using ex_reachable(2,3) n1 n2 a1 a2 acc a3 rm a4 p a5 by blast
qed

subsection \<open>Every call returns\<close>

lemma script_pop:
  fixes f :: "int \<Rightarrow> 'a list"
  assumes "f d = r # rs" "finite {x. f x \<noteq> []}"
  shows "finite {x. (f(d := rs)) x \<noteq> []}
       \<and> Suc (\<Sum>x \<in> {x. (f(d := rs)) x \<noteq> []}. length ((f(d := rs)) x))
           = (\<Sum>x \<in> {x. f x \<noteq> []}. length (f x))"
proof -
  let ?S = "{x. f x \<noteq> []}" and ?T = "{x. (f(d := rs)) x \<noteq> []}"
  have sub: "?T \<subseteq> ?S" using assms(1) by auto
  then have fin: "finite ?T" using assms(2) by (rule finite_subset)
  have d: "d \<in> ?S" using assms(1) by simp
  have same: "?T - {d} = ?S - {d}" by auto
  have s: "(\<Sum>x \<in> ?S. length (f x)) = length (f d) + (\<Sum>x \<in> ?S - {d}. length (f x))"
    using assms(2) d by (rule sum.remove)
  have off: "(\<Sum>x \<in> ?T - {d}. length ((f(d := rs)) x)) = (\<Sum>x \<in> ?S - {d}. length (f x))"
    unfolding same by (rule sum.cong) simp_all
  have t: "(\<Sum>x \<in> ?T. length ((f(d := rs)) x)) = length rs + (\<Sum>x \<in> ?S - {d}. length (f x))"
  proof (cases "rs = []")
    case True
    then have "?T = ?T - {d}" by auto
    then have "(\<Sum>x \<in> ?T. length ((f(d := rs)) x)) = (\<Sum>x \<in> ?T - {d}. length ((f(d := rs)) x))"
      by simp
    with off True show ?thesis by simp
  next
    case False
    then have "d \<in> ?T" by simp
    from sum.remove [OF fin this, of "\<lambda>x. length ((f(d := rs)) x)"] off
    show ?thesis by simp
  qed
  show ?thesis using fin s t assms(1) by simp
qed

lemma process_client_scripted:
  assumes "process_client K i c w = Inr (rc, c', w')" "finite_scripts w"
  shows "finite_scripts w' \<and> scripted w' \<le> scripted w \<and> (rc < 0 \<longrightarrow> scripted w' < scripted w)"
proof (cases "is_response_pending (clients c ! i)")
  case True
  show ?thesis
  proof (cases "send_in w (fd (clients c ! i))")
    case Nil
    with assms True show ?thesis
      unfolding process_client_pending [OF True]
      by (auto simp add: finite_scripts_def scripted_def)
  next
    case (Cons r rs)
    from script_pop [of "send_in w" "fd (clients c ! i)" r rs] Cons assms(2)
    have p: "finite {x. ((send_in w)(fd (clients c ! i) := rs)) x \<noteq> []}"
      "Suc (\<Sum>x \<in> {x. ((send_in w)(fd (clients c ! i) := rs)) x \<noteq> []}.
              length (((send_in w)(fd (clients c ! i) := rs)) x))
         = (\<Sum>x \<in> {x. send_in w x \<noteq> []}. length (send_in w x))"
      by (simp_all add: finite_scripts_def)
    have "recv_in w' = recv_in w \<and> accept_in w' = accept_in w
            \<and> send_in w' = (send_in w)(fd (clients c ! i) := rs)"
      using assms(1) Cons unfolding process_client_pending [OF True]
      by (auto split: if_splits)
    then show ?thesis
      using p assms(2) unfolding finite_scripts_def scripted_def by simp
  qed
next
  case False
  show ?thesis
  proof (cases "recv_in w (fd (clients c ! i))")
    case Nil
    with assms False show ?thesis
      by (simp add: process_client_would_block)
  next
    case (Cons r rs)
    from script_pop [of "recv_in w" "fd (clients c ! i)" r rs] Cons assms(2)
    have p: "finite {x. ((recv_in w)(fd (clients c ! i) := rs)) x \<noteq> []}"
      "Suc (\<Sum>x \<in> {x. ((recv_in w)(fd (clients c ! i) := rs)) x \<noteq> []}.
              length (((recv_in w)(fd (clients c ! i) := rs)) x))
         = (\<Sum>x \<in> {x. recv_in w x \<noteq> []}. length (recv_in w x))"
      by (simp_all add: finite_scripts_def)
    have "send_in w' = send_in w \<and> accept_in w' = accept_in w
            \<and> recv_in w' = (recv_in w)(fd (clients c ! i) := rs)"
      using assms(1) Cons False
      by (auto simp add: process_client_def sys_recv_def Let_def
               split: if_splits ctl_proto_type.splits sum.splits)
    then show ?thesis
      using p assms(2) unfolding finite_scripts_def scripted_def by simp
  qed
qed

lemma remove_client_scripted:
  assumes "remove_client i c w = (c', w')"
  shows "finite_scripts w' = finite_scripts w \<and> scripted w' = scripted w"
  using remove_client_effect [OF assms] by (simp add: finite_scripts_def scripted_def)

lemma accept_client_scripted:
  assumes "accept_client c w = (c', w')"
  shows "finite_scripts w' = finite_scripts w \<and> scripted w' \<le> scripted w"
  using assms
  by (auto simp add: accept_client_def ut_is_readable_def ut_accept_def Let_def
        finite_scripts_def scripted_def split: if_splits list.splits)


lemma ctl_process_scripted_aux:
  "(\<forall>c w c' w'. ctl_process K n c w = Some (Inr (c', w')) \<longrightarrow> finite_scripts w
        \<longrightarrow> finite_scripts w' \<and> scripted w' \<le> scripted w)
   \<and> (\<forall>i c w c' w'. ctl_process_scan K n i c w = Some (Inr (c', w')) \<longrightarrow> finite_scripts w
        \<longrightarrow> finite_scripts w' \<and> scripted w' \<le> scripted w)"
proof (induction n)
  case 0
  show ?case by simp
next
  case (Suc n)
  note P = Suc.IH [THEN conjunct1, rule_format]
  note Q = Suc.IH [THEN conjunct2, rule_format]
  have p: "finite_scripts w' \<and> scripted w' \<le> scripted w"
    if r: "ctl_process K (Suc n) c w = Some (Inr (c', w'))" and f: "finite_scripts w"
    for c w c' w'
  proof -
    from r obtain c1 w1 where s: "ctl_process_scan K n 0 c w = Some (Inr (c1, w1))"
      by (auto split: option.splits sum.splits)
    note q = Q [OF s f]
    obtain c2 w2 where a: "accept_client c1 w1 = (c2, w2)" by (cases "accept_client c1 w1")
    from r s a have "w' = w1\<lparr>errno := errno w\<rparr> \<or> w' = w2\<lparr>errno := errno w\<rparr>"
      by (auto split: if_splits)
    with q accept_client_scripted [OF a] show ?thesis
      by (auto simp add: finite_scripts_def scripted_def)
  qed
  have q: "finite_scripts w' \<and> scripted w' \<le> scripted w"
    if r: "ctl_process_scan K (Suc n) i c w = Some (Inr (c', w'))" and f: "finite_scripts w"
    for i c w c' w'
  proof (cases "i < num_clients c")
    case False
    with r f show ?thesis by simp
  next
    case True
    from r True obtain rc c1 w1 where pc: "process_client K i c w = Inr (rc, c1, w1)"
      by (auto split: sum.splits)
    note s1 = process_client_scripted [OF pc f]
    show ?thesis
    proof (cases "rc < 0")
      case False
      with r True pc have "ctl_process_scan K n (Suc i) c1 w1 = Some (Inr (c', w'))" by simp
      from Q [OF this] s1 show ?thesis by auto
    next
      case neg: True
      obtain c2 w2 where rm: "remove_client i c1 w1 = (c2, w2)" by (cases "remove_client i c1 w1")
      note s2 = remove_client_scripted [OF rm]
      from r True pc neg rm obtain c3 w3 where n3: "ctl_process K n c2 w2 = Some (Inr (c3, w3))"
        and s3: "ctl_process_scan K n (Suc i) c3 w3 = Some (Inr (c', w'))"
        by (auto split: option.splits sum.splits)
      from P [OF n3] s1 s2 have k3: "finite_scripts w3 \<and> scripted w3 \<le> scripted w" by auto
      from Q [OF s3] k3 show ?thesis by auto
    qed
  qed
  show ?case using p q by blast
qed

text \<open>A call that has returned returns the same with more steps allowed.\<close>

lemma ctl_process_more_steps_aux:
  "(\<forall>c w r. ctl_process K n c w = Some r \<longrightarrow> ctl_process K (Suc n) c w = Some r)
   \<and> (\<forall>i c w r. ctl_process_scan K n i c w = Some r \<longrightarrow> ctl_process_scan K (Suc n) i c w = Some r)"
proof (induction n)
  case 0
  show ?case by simp
next
  case (Suc n)
  note P = Suc.IH [THEN conjunct1, rule_format]
  note Q = Suc.IH [THEN conjunct2, rule_format]
  have p: "ctl_process K (Suc (Suc n)) c w = Some r"
    if r: "ctl_process K (Suc n) c w = Some r" for c w r
  proof -
    from r obtain r1 where s: "ctl_process_scan K n 0 c w = Some r1"
      by (auto split: option.splits)
    from Q [OF s] have s': "ctl_process_scan K (Suc n) 0 c w = Some r1" .
    from r s have "(case Some r1 of None \<Rightarrow> None | Some (Inl f) \<Rightarrow> Some (Inl f)
          | Some (Inr (c1, w1)) \<Rightarrow>
              (case (if num_clients c1 < MAX_CLIENTS then accept_client c1 w1 else (c1, w1)) of
                 (c2, w2) \<Rightarrow> Some (Inr (c2, w2\<lparr>errno := errno w\<rparr>)))) = Some r"
      by simp
    then show ?thesis
      by (subst ctl_process.simps(2)) (simp only: s')
  qed
  have q: "ctl_process_scan K (Suc (Suc n)) i c w = Some r"
    if r: "ctl_process_scan K (Suc n) i c w = Some r" for i c w r
  proof (cases "i < num_clients c")
    case False
    with r show ?thesis by simp
  next
    case True
    show ?thesis
    proof (cases "process_client K i c w")
      case (Inl f)
      with r True show ?thesis by simp
    next
      case (Inr x)
      obtain rc c1 w1 where x: "x = (rc, c1, w1)" by (cases x)
      show ?thesis
      proof (cases "rc < 0")
        case False
        with r True Inr x have "ctl_process_scan K n (Suc i) c1 w1 = Some r" by simp
        from Q [OF this] True Inr x False show ?thesis
          by (subst ctl_process_scan.simps(2))
             (simp del: ctl_process.simps ctl_process_scan.simps)
      next
        case neg: True
        obtain c2 w2 where rm: "remove_client i c1 w1 = (c2, w2)"
          by (cases "remove_client i c1 w1")
        from r True Inr x neg rm obtain r1 where n1: "ctl_process K n c2 w2 = Some r1"
          by (auto split: option.splits)
        note n1' = P [OF n1]
        show ?thesis
        proof (cases r1)
          case (Inl f)
          with r True Inr x neg rm n1 have "r = Inl f" by simp
          with True Inr x neg rm n1' Inl show ?thesis
            by (subst ctl_process_scan.simps(2))
               (simp del: ctl_process.simps ctl_process_scan.simps)
        next
          case (Inr y)
          obtain c3 w3 where y: "y = (c3, w3)" by (cases y)
          from r True \<open>process_client K i c w = Inr x\<close> x neg rm n1 Inr y
          have "ctl_process_scan K n (Suc i) c3 w3 = Some r" by simp
          from Q [OF this] True \<open>process_client K i c w = Inr x\<close> x neg rm n1' Inr y
          show ?thesis
            by (subst ctl_process_scan.simps(2))
               (simp del: ctl_process.simps ctl_process_scan.simps)
        qed
      qed
    qed
  qed
  show ?case using p q by blast
qed

lemma ctl_process_more_steps:
  assumes "n \<le> m"
  shows "ctl_process K n c w = Some r \<Longrightarrow> ctl_process K m c w = Some r"
    and "ctl_process_scan K n i c w = Some r \<Longrightarrow> ctl_process_scan K m i c w = Some r"
  using assms
proof (induction m)
  case 0
  { case 1 then show ?case by simp }
  { case 2 then show ?case by simp }
next
  case (Suc m)
  { case 1
    then show ?case
      using Suc.IH(1) ctl_process_more_steps_aux [of K m] by (cases "n = Suc m") auto }
  { case 2
    then show ?case
      using Suc.IH(2) ctl_process_more_steps_aux [of K m] by (cases "n = Suc m") auto }
qed


lemma ctl_process_scripted:
  "ctl_process K n c w = Some (Inr (c', w')) \<Longrightarrow> finite_scripts w
     \<Longrightarrow> finite_scripts w' \<and> scripted w' \<le> scripted w"
  using ctl_process_scripted_aux [of K n] by blast

lemma ctl_process_scan_returns:
  "finite_scripts w \<Longrightarrow> \<exists>n r. ctl_process_scan K n i c w = Some r"
proof (induction "scripted w" arbitrary: i c w rule: less_induct)
  case less
  note outer = less.hyps
  have after_scan: "\<exists>n r. ctl_process K n c' w' = Some r"
    if "scripted w' < scripted w" "finite_scripts w'" for c' w'
  proof -
    from outer [OF that] obtain n r where "ctl_process_scan K n 0 c' w' = Some r" by blast
    then have "\<exists>r'. ctl_process K (Suc n) c' w' = Some r'"
      by (auto split: sum.splits prod.splits)
    then show ?thesis by blast
  qed
  have inner: "\<exists>n r. ctl_process_scan K n j d v = Some r"
    if "scripted v \<le> scripted w" "finite_scripts v" for j d v
    using that
  proof (induction "num_clients d - j" arbitrary: j d v rule: less_induct)
    case (less j d v)
    show ?case
    proof (cases "j < num_clients d")
      case False
      then have "ctl_process_scan K (Suc 0) j d v = Some (Inr (d, v))" by simp
      then show ?thesis by blast
    next
      case True
      show ?thesis
      proof (cases "process_client K j d v")
        case (Inl f)
        with True have "ctl_process_scan K (Suc 0) j d v = Some (Inl f)" by simp
        then show ?thesis by blast
      next
        case (Inr x)
        obtain rc c1 w1 where x: "x = (rc, c1, w1)" by (cases x)
        note pc = Inr [unfolded x]
        note s1 = process_client_scripted [OF pc less.prems(2)]
        note f1 = process_client_frame [OF pc]
        show ?thesis
        proof (cases "rc < 0")
          case False
          have dec: "num_clients c1 - Suc j < num_clients d - j" using True f1 by simp
          have le1: "scripted w1 \<le> scripted w" using s1 less.prems(1) by simp
          have fin1: "finite_scripts w1" using s1 by simp
          from less.hyps [OF dec le1 fin1]
          obtain n r where "ctl_process_scan K n (Suc j) c1 w1 = Some r" by blast
          with True pc False have "ctl_process_scan K (Suc n) j d v = Some r" by simp
          then show ?thesis by blast
        next
          case neg: True
          obtain c2 w2 where rm: "remove_client j c1 w1 = (c2, w2)"
            by (cases "remove_client j c1 w1")
          note s2 = remove_client_scripted [OF rm]
          have lt: "scripted w2 < scripted w" and fin2: "finite_scripts w2"
            using s1 s2 neg less.prems(1) by auto
          from after_scan [OF lt fin2] obtain n1 r1 where n1: "ctl_process K n1 c2 w2 = Some r1"
            by blast
          show ?thesis
          proof (cases r1)
            case (Inl f)
            with True pc neg rm n1 have "ctl_process_scan K (Suc n1) j d v = Some (Inl f)"
              by simp
            then show ?thesis by blast
          next
            case (Inr y)
            obtain c3 w3 where y: "y = (c3, w3)" by (cases y)
            note n1' = n1 [unfolded Inr y]
            from ctl_process_scripted [OF n1' fin2] lt
            have lt3: "scripted w3 < scripted w" and fin3: "finite_scripts w3" by auto
            from outer [OF lt3 fin3] obtain n2 r2 where
              n2: "ctl_process_scan K n2 (Suc j) c3 w3 = Some r2" by blast
            let ?n = "max n1 n2"
            have a: "ctl_process K ?n c2 w2 = Some (Inr (c3, w3))"
              using ctl_process_more_steps(1) [OF _ n1', of ?n] by simp
            have b: "ctl_process_scan K ?n (Suc j) c3 w3 = Some r2"
              using ctl_process_more_steps(2) [OF _ n2, of ?n] by simp
            from True pc neg rm a b have "ctl_process_scan K (Suc ?n) j d v = Some r2"
              by (simp del: ctl_process.simps ctl_process_scan.simps
                       add: ctl_process_scan.simps(2))
            then show ?thesis by blast
          qed
        qed
      qed
    qed
  qed
  show ?case using inner [of w i c] less.prems by simp
qed

text \<open>
  In an environment that scripts finitely many descriptors, every call of \<open>ctl_process\<close>
  returns: with enough steps allowed the result is an endpoint or a fault, never \<open>None\<close>.
\<close>

lemma ctl_process_returns:
  assumes "finite_scripts w"
  shows "\<exists>n r. ctl_process K n c w = Some r"
proof -
  from ctl_process_scan_returns [OF assms] obtain n r where
    "ctl_process_scan K n 0 c w = Some r" by blast
  then have "\<exists>r'. ctl_process K (Suc n) c w = Some r'"
    by (auto split: sum.splits prod.splits)
  then show ?thesis by blast
qed

subsection \<open>One call of the top-level processing\<close>

text \<open>
  C4. One call of \<open>ctl_process\<close> on the pool [5] whose client's peer has closed, with two
  connections waiting: the client is removed, the nested call accepts descriptor 6, and
  the outer call, going on after it, accepts descriptor 7 as well. One call on the pool
  [5, 6], with one connection waiting whose request has arrived: after the removal of 5
  the nested call steps 6 and accepts 7, and the outer loop, resumed at index 1, steps the
  client it finds there, which is 7: its request is read and answered in the same call.
\<close>

theorem ctl_process_resumes_after_restart:
  "(\<exists>c' w'. ctl_process ex_limits (Suc (Suc (Suc (Suc 0)))) ex_ctl1 ex_world_two_waiting
               = Some (Inr (c', w'))
            \<and> num_clients c' = 2 \<and> map fd (clients c') = [6, 7]
            \<and> accept_in w' = [] \<and> trace w' = [ev_close 5])
   \<and> (\<exists>c' w'. ctl_process ex_limits (Suc (Suc (Suc (Suc (Suc 0))))) ex_ctl2 ex_world_one_waiting
               = Some (Inr (c', w'))
            \<and> num_clients c' = 2 \<and> map fd (clients c') = [6, 7]
            \<and> map is_response_pending (clients c') = [False, True]
            \<and> recv_in w' 7 = [] \<and> accept_in w' = [] \<and> trace w' = [ev_close 5])"
  by (simp add: step_defs ex_defs process_get_attr_def xcm_attr_get_def is_sensitive_def)

end
